theory Spec2Isabelle
  imports Complex_Main
begin

section \<open>The graph engine of Dex (src/app.js), embedded in HOL\<close>

text \<open>
  The engine is the function \<open>renderGraph\<close> of src/app.js with its helpers
  \<open>buildNeighbourMap\<close>, \<open>highlightSelection\<close>, \<open>onNodeSelect\<close>,
  \<open>onLinkSelect\<close> and \<open>updateDetailsPanel\<close>.

  Conventions of the embedding:
  \<^item> a JavaScript number is a \<^typ>\<open>real\<close>: IEEE rounding, \<open>NaN\<close> and the infinities are
    outside the model (the one \<open>Infinity\<close> of the source, the initial \<open>minDist\<close>, is
    the value \<open>None\<close>);
  \<^item> a plain object used as a dictionary (\<open>nodeMap\<close>, \<open>neighbourMap\<close>) is the map
    of its own properties, read through \<open>get\<close>, which also finds the properties
    inherited from \<open>Object.prototype\<close>;
  \<^item> \<open>undefined\<close> and \<open>null\<close> are \<open>None\<close>; reading a property of either raises
    \<open>TypeError\<close>;
  \<^item> a reference to a node object of the array \<open>nodes\<close> is its index in that array,
    so that a change of a node is seen through every link that holds it.
\<close>

subsection \<open>Data\<close>

text \<open>
  An element of \<open>DATA.nodes\<close>. The fields \<open>id\<close> and \<open>size\<close> are named \<open>nid\<close> and
  \<open>nsize\<close>; a missing \<open>size\<close> is \<open>None\<close>. The fields that the engine only copies into
  markup (\<open>name\<close>, \<open>type\<close>, \<open>description\<close>, \<open>website\<close>, \<open>image_url\<close>,
  \<open>interests\<close>) are left out.
\<close>

record node_desc =
  nid :: string
  category :: string
  nsize :: "real option"

text \<open>An element of \<open>DATA.links\<close>: \<open>source\<close> and \<open>target\<close> are node ids.\<close>

record link_desc =
  source_id :: string
  target_id :: string
  ltype :: string
  description :: string

subsection \<open>Marker radius\<close>

text \<open>
  \<open>node.size ? Math.max(4, 3 + node.size * 0.25) : 5\<close>. The test is JavaScript
  truthiness: \<open>undefined\<close> and the number \<open>0\<close> both take the second branch.
\<close>

definition radius :: "'a node_desc_scheme \<Rightarrow> real" where
  "radius node =
     (case nsize node of
        None \<Rightarrow> 5
      | Some sz \<Rightarrow> if sz \<noteq> 0 then max 4 (3 + sz * 0.25) else 5)"

subsection \<open>Exceptions\<close>

text \<open>
  The only exception the engine can raise is a \<open>TypeError\<close>: of reading a property of
  \<open>undefined\<close>, or of calling a method that the object does not have. A computation that changes the state ends in \<open>Done s\<close>, or in
  \<open>Threw e s\<close> where \<open>s\<close> is the state reached when \<open>e\<close> was raised: what was
  assigned before the exception stays assigned.
\<close>

datatype js_error = TypeError

datatype 'a outcome = Done 'a | Threw js_error 'a

fun state_of :: "'a outcome \<Rightarrow> 'a" where
  "state_of (Done s) = s"
| "state_of (Threw e s) = s"

fun and_then :: "'a outcome \<Rightarrow> ('a \<Rightarrow> 'a outcome) \<Rightarrow> 'a outcome" where
  "and_then (Done s) f = f s"
| "and_then (Threw e s) f = Threw e s"

text \<open>
  \<open>xs.forEach((a, i) => ...)\<close> on a state: the elements in order with their indices;
  an exception ends the loop.
\<close>

fun forEach_i :: "(nat \<Rightarrow> 'a \<Rightarrow> 's \<Rightarrow> 's outcome) \<Rightarrow> nat \<Rightarrow> 'a list \<Rightarrow> 's \<Rightarrow> 's outcome" where
  "forEach_i f i [] s = Done s"
| "forEach_i f i (a # as) s =
     (case f i a s of
        Done s' \<Rightarrow> forEach_i f (Suc i) as s'
      | Threw e s' \<Rightarrow> Threw e s')"

subsection \<open>Plain objects as dictionaries\<close>

text \<open>
  \<open>nodeMap\<close> and the map of \<open>buildNeighbourMap\<close> are plain objects \<open>{}\<close>. Reading
  \<open>obj[k]\<close> finds an own property, or else a property inherited from
  \<open>Object.prototype\<close>, or else is \<open>undefined\<close>. These are the names of the properties
  of \<open>Object.prototype\<close>; all are functions but \<open>__proto__\<close>, which reads as
  \<open>Object.prototype\<close> itself.
\<close>

definition proto_keys :: "string list" where
  "proto_keys =
     [''constructor'', ''__defineGetter__'', ''__defineSetter__'', ''hasOwnProperty'',
      ''__lookupGetter__'', ''__lookupSetter__'', ''isPrototypeOf'', ''propertyIsEnumerable'',
      ''toString'', ''valueOf'', ''__proto__'', ''toLocaleString'']"

definition inherited :: "string \<Rightarrow> bool" where
  "inherited k = (k \<in> set proto_keys)"

text \<open>
  The value of a property: a value of the program (\<open>Val\<close>), or a member of
  \<open>Object.prototype\<close> (\<open>Inherited\<close>), which is an object or a function, so it is
  truthy, and it has none of the properties the program reads from its own values.
\<close>

datatype 'v slot = Val 'v | Inherited

text \<open>An object is its own properties; \<open>get obj k\<close> is \<open>obj[k]\<close>, \<open>None\<close> for \<open>undefined\<close>.\<close>

definition get :: "(string \<rightharpoonup> 'v slot) \<Rightarrow> string \<Rightarrow> 'v slot option" where
  "get obj k =
     (case obj k of
        Some v \<Rightarrow> Some v
      | None \<Rightarrow> if inherited k then Some Inherited else None)"

text \<open>
  \<open>obj[k] = v\<close>. For \<open>k = '__proto__'\<close> the assignment stores no property: it calls the
  setter of \<open>Object.prototype\<close>, which replaces the prototype of \<open>obj\<close> when \<open>v\<close> is an
  object. For the map of \<open>buildNeighbourMap\<close> the value assigned under this key is
  \<open>Object.prototype\<close> itself, so nothing changes. For \<open>nodeMap\<close> the value is a node:
  what is read through a prototype replaced by a node is outside the model, and the
  statements below that read a missing key of \<open>nodeMap\<close> exclude a node of that id.
\<close>

definition put :: "string \<Rightarrow> 'v slot \<Rightarrow> (string \<rightharpoonup> 'v slot) \<Rightarrow> (string \<rightharpoonup> 'v slot)" where
  "put k v obj = (if k = ''__proto__'' then obj else obj(k \<mapsto> v))"

subsection \<open>buildNeighbourMap\<close>

text \<open>
  \<open>map[k] = map[k] || new Set()\<close>: what \<open>map[k]\<close> reads is kept when it is defined (a
  set, or a member of \<open>Object.prototype\<close>: both are truthy), and is a new empty set
  otherwise.
\<close>

definition ensure_set :: "string \<Rightarrow> (string \<rightharpoonup> string set slot) \<Rightarrow> (string \<rightharpoonup> string set slot)" where
  "ensure_set k m = put k (case get m k of None \<Rightarrow> Val {} | Some v \<Rightarrow> v) m"

text \<open>
  \<open>map[k].add(v)\<close>: a member of \<open>Object.prototype\<close> has no method \<open>add\<close>, and calling
  \<open>undefined\<close> raises \<open>TypeError\<close>.
\<close>

definition set_add :: "string \<Rightarrow> string \<Rightarrow> (string \<rightharpoonup> string set slot) \<Rightarrow> js_error + (string \<rightharpoonup> string set slot)" where
  "set_add k v m =
     (case get m k of
        Some (Val S) \<Rightarrow> Inr (put k (Val (insert v S)) m)
      | Some Inherited \<Rightarrow> Inl TypeError
      | None \<Rightarrow> Inl TypeError)"

text \<open>The body of the \<open>forEach\<close> of \<open>buildNeighbourMap\<close>, its four statements in order.\<close>

definition add_link :: "link_desc \<Rightarrow> (string \<rightharpoonup> string set slot) \<Rightarrow> js_error + (string \<rightharpoonup> string set slot)" where
  "add_link l m =
     (case set_add (source_id l) (target_id l)
             (ensure_set (target_id l) (ensure_set (source_id l) m)) of
        Inl e \<Rightarrow> Inl e
      | Inr m' \<Rightarrow> set_add (target_id l) (source_id l) m')"

text \<open>\<open>DATA.links.forEach\<close> on the local \<open>map\<close>: an exception ends the loop.\<close>

fun add_links :: "link_desc list \<Rightarrow> (string \<rightharpoonup> string set slot) \<Rightarrow> js_error + (string \<rightharpoonup> string set slot)" where
  "add_links [] m = Inr m"
| "add_links (l # ls) m =
     (case add_link l m of
        Inl e \<Rightarrow> Inl e
      | Inr m' \<Rightarrow> add_links ls m')"

text \<open>
  \<open>buildNeighbourMap\<close>: the map that is assigned to \<open>neighbourMap\<close>, or the exception,
  with which \<open>neighbourMap\<close> is not assigned.
\<close>

definition buildNeighbourMap :: "link_desc list \<Rightarrow> js_error + (string \<rightharpoonup> string set slot)" where
  "buildNeighbourMap ls = add_links ls Map.empty"

text \<open>\<open>v\<close> is a member of the set that \<open>m[k]\<close> reads.\<close>

definition neighbour_of :: "(string \<rightharpoonup> string set slot) \<Rightarrow> string \<Rightarrow> string \<Rightarrow> bool" where
  "neighbour_of m k v = (case get m k of Some (Val S) \<Rightarrow> v \<in> S | _ \<Rightarrow> False)"

subsection \<open>The objects of a render pass\<close>

text \<open>
  A node of the simulation: the copy of the node of the dataset
  (\<open>Object.assign({}, n)\<close>) with position \<open>x, y\<close>, velocity \<open>vx, vy\<close> and force
  \<open>fx, fy\<close>, named \<open>nx, ny, nvx, nvy, nfx, nfy\<close> here.
\<close>

record simnode = node_desc +
  nx :: real
  ny :: real
  nvx :: real
  nvy :: real
  nfx :: real
  nfy :: real

text \<open>
  A link of the simulation. \<open>source\<close> and \<open>target\<close> are what \<open>nodeMap[...]\<close>
  returned: a reference to a node (its index in \<open>nodes\<close>) or \<open>undefined\<close>. It is never
  a member of \<open>Object.prototype\<close>: see \<open>adapt_end\<close> below.
\<close>

record simlink =
  source :: "nat option"
  target :: "nat option"
  stype :: string
  sdescription :: string

text \<open>
  The SVG elements, with the attributes the engine writes. An attribute that has not
  been set is \<open>None\<close>.
\<close>

record circle_el =
  c_r :: real
  c_cx :: "real option"
  c_cy :: "real option"
  c_opacity :: "real option"
  c_stroke_width :: "real option"

record line_el =
  l_x1 :: "real option"
  l_y1 :: "real option"
  l_x2 :: "real option"
  l_y2 :: "real option"
  l_opacity :: "real option"
  l_stroke_width :: "real option"

record text_el =
  t_x :: "real option"
  t_y :: "real option"

text \<open>
  What the details panel shows, which decides the close button that is bound:
  none, the one of a connection, or the one of a node.
\<close>

datatype panel = DefaultPanel | LinkPanel | NodePanel

text \<open>
  A link object held outside \<open>links\<close>, as \<open>selectedLink\<close> holds one: the program
  compares it by identity and reads the ids of its two ends. Its identity is the
  render pass that created it and its index in the \<open>links\<close> of that pass, so that a
  link of an earlier pass is equal to no link of a later pass. The ids of its ends
  never change; \<open>None\<close> is an end that is \<open>undefined\<close>.
\<close>

record link_ref =
  lr_pass :: nat
  lr_index :: nat
  lr_source :: "string option"
  lr_target :: "string option"

text \<open>
  The variables of the module (\<open>selectedNode\<close> to \<open>scale\<close>), the variables of the
  closure of \<open>renderGraph\<close> (\<open>draggingNode\<close> to \<open>clusterCenters\<close>) and the part of
  the host the engine talks to: the animation-frame requests that are pending, the
  next request id, and what the program has passed to \<open>console.warn\<close> and
  \<open>console.error\<close>. \<open>rendered\<close> says that \<open>renderGraph\<close> has run: it assigns
  \<open>nodes\<close>, \<open>nodeEls\<close> and \<open>linkEls\<close>, which are \<open>undefined\<close> before. \<open>pass\<close> counts
  the render passes; it stands for the identity of the objects a pass creates. The
  functions embedded here contain no call of \<open>console\<close>: the calls of src/app.js are in
  the loading of the community data, the watchlist and the notes. So nothing below
  changes \<open>console\<close>, as nothing in the engine does.
\<close>

record app_state =
  selectedNode :: "node_desc option"
  selectedLink :: "link_ref option"
  details_panel :: panel
  rendered :: bool
  pass :: nat
  nodes :: "simnode list"
  links :: "simlink list"
  neighbourMap :: "string \<rightharpoonup> string set slot"
  nodeEls :: "circle_el list"
  hitNodeEls :: "circle_el list"
  linkEls :: "line_el list"
  hitLineEls :: "line_el list"
  textEls :: "text_el list"
  simulationId :: "nat option"
  offsetX :: real
  offsetY :: real
  scale :: real
  draggingNode :: "nat option"
  dragOffset :: "real \<times> real"
  isPanning :: bool
  panStart :: "real \<times> real"
  tickCount :: nat
  width :: real
  height :: real
  clusterCenters :: "string \<rightharpoonup> real \<times> real"
  frame_queue :: "nat list"
  next_frame :: nat
  console :: "string list"

text \<open>
  A reference read as an object: \<open>undefined\<close> stays \<open>None\<close>. An index outside
  \<open>nodes\<close> denotes no object either; the adapter never produces one.
\<close>

definition deref :: "simnode list \<Rightarrow> nat option \<Rightarrow> (nat \<times> simnode) option" where
  "deref ns ref =
     (case ref of
        None \<Rightarrow> None
      | Some i \<Rightarrow> if i < length ns then Some (i, ns ! i) else None)"

subsection \<open>The host: animation frames\<close>

text \<open>
  \<open>simulationId = requestAnimationFrame(tick)\<close>: the host hands out a fresh id and
  queues the callback. The requests of the starfield, which the engine never reads or
  cancels, are not part of the queue.
\<close>

definition requestAnimationFrame :: "app_state \<Rightarrow> app_state" where
  "requestAnimationFrame s =
     s\<lparr>simulationId := Some (next_frame s),
       frame_queue := frame_queue s @ [next_frame s],
       next_frame := Suc (next_frame s)\<rparr>"

text \<open>
  \<open>if (simulationId !== null) { cancelAnimationFrame(simulationId); simulationId = null; }\<close>
\<close>

definition cancel_simulation :: "app_state \<Rightarrow> app_state" where
  "cancel_simulation s =
     (case simulationId s of
        None \<Rightarrow> s
      | Some h \<Rightarrow> s\<lparr>frame_queue := filter (\<lambda>q. q \<noteq> h) (frame_queue s), simulationId := None\<rparr>)"

subsection \<open>Writing attributes of elements\<close>

text \<open>
  \<open>els[i].setAttribute(...)\<close>: a \<open>TypeError\<close> when \<open>els[i]\<close> is \<open>undefined\<close>.
\<close>

definition write_el :: "nat \<Rightarrow> ('e \<Rightarrow> 'e) \<Rightarrow> 'e list \<Rightarrow> 'e list option" where
  "write_el i f es = (if i < length es then Some (es[i := f (es ! i)]) else None)"

definition set_nodeEl :: "nat \<Rightarrow> (circle_el \<Rightarrow> circle_el) \<Rightarrow> app_state \<Rightarrow> app_state outcome" where
  "set_nodeEl i f s =
     (case write_el i f (nodeEls s) of
        None \<Rightarrow> Threw TypeError s
      | Some es \<Rightarrow> Done (s\<lparr>nodeEls := es\<rparr>))"

definition set_hitNodeEl :: "nat \<Rightarrow> (circle_el \<Rightarrow> circle_el) \<Rightarrow> app_state \<Rightarrow> app_state outcome" where
  "set_hitNodeEl i f s =
     (case write_el i f (hitNodeEls s) of
        None \<Rightarrow> Threw TypeError s
      | Some es \<Rightarrow> Done (s\<lparr>hitNodeEls := es\<rparr>))"

definition set_linkEl :: "nat \<Rightarrow> (line_el \<Rightarrow> line_el) \<Rightarrow> app_state \<Rightarrow> app_state outcome" where
  "set_linkEl i f s =
     (case write_el i f (linkEls s) of
        None \<Rightarrow> Threw TypeError s
      | Some es \<Rightarrow> Done (s\<lparr>linkEls := es\<rparr>))"

definition set_hitLineEl :: "nat \<Rightarrow> (line_el \<Rightarrow> line_el) \<Rightarrow> app_state \<Rightarrow> app_state outcome" where
  "set_hitLineEl i f s =
     (case write_el i f (hitLineEls s) of
        None \<Rightarrow> Threw TypeError s
      | Some es \<Rightarrow> Done (s\<lparr>hitLineEls := es\<rparr>))"

definition set_textEl :: "nat \<Rightarrow> (text_el \<Rightarrow> text_el) \<Rightarrow> app_state \<Rightarrow> app_state outcome" where
  "set_textEl i f s =
     (case write_el i f (textEls s) of
        None \<Rightarrow> Threw TypeError s
      | Some es \<Rightarrow> Done (s\<lparr>textEls := es\<rparr>))"

subsection \<open>highlightSelection\<close>

definition highlight_node_of_link :: "string \<Rightarrow> string \<Rightarrow> nat \<Rightarrow> simnode \<Rightarrow> app_state \<Rightarrow> app_state outcome" where
  "highlight_node_of_link srcId tgtId i n s =
     (let emphasised = (nid n = srcId \<or> nid n = tgtId) in
      set_nodeEl i
        (\<lambda>e. e\<lparr>c_opacity := Some (if emphasised then 1 else 0.2),
                c_stroke_width := Some (if emphasised then 2 else 1)\<rparr>) s)"

text \<open>
  \<open>l === selectedLink\<close>: the link with index \<open>i\<close> of the current pass is the selected
  object when that was created in this pass at this index.
\<close>

definition highlight_link_of_link :: "link_ref \<Rightarrow> nat \<Rightarrow> simlink \<Rightarrow> app_state \<Rightarrow> app_state outcome" where
  "highlight_link_of_link sl i l s =
     (let emphasised = (lr_pass sl = pass s \<and> lr_index sl = i) in
      and_then
        (set_linkEl i
           (\<lambda>e. e\<lparr>l_opacity := Some (if emphasised then 1 else 0.05),
                   l_stroke_width := Some (if emphasised then 2 else 1)\<rparr>) s)
        (set_hitLineEl i (\<lambda>e. e\<lparr>l_stroke_width := Some 18\<rparr>)))"

text \<open>
  \<open>!selectedNode || n.id === selectedNode.id || (neighbours && neighbours.has(n.id))\<close>,
  evaluated from left to right; \<open>None\<close> is the \<open>TypeError\<close> of calling \<open>has\<close> on a
  member of \<open>Object.prototype\<close>, which has no such method.
\<close>

definition node_emphasised :: "node_desc option \<Rightarrow> string set slot option \<Rightarrow> simnode \<Rightarrow> bool option" where
  "node_emphasised sel neighbours n =
     (case sel of
        None \<Rightarrow> Some True
      | Some sn \<Rightarrow>
          if nid n = nid sn then Some True
          else (case neighbours of
                  None \<Rightarrow> Some False
                | Some (Val S) \<Rightarrow> Some (nid n \<in> S)
                | Some Inherited \<Rightarrow> None))"

text \<open>The stroke width is \<open>(selectedNode && n.id === selectedNode.id) ? 2 : 1\<close>.\<close>

definition highlight_node_of_node ::
  "node_desc option \<Rightarrow> string set slot option \<Rightarrow> nat \<Rightarrow> simnode \<Rightarrow> app_state \<Rightarrow> app_state outcome" where
  "highlight_node_of_node sel neighbours i n s =
     (case node_emphasised sel neighbours n of
        None \<Rightarrow> Threw TypeError s
      | Some emphasised \<Rightarrow>
          (let selected = (case sel of None \<Rightarrow> False | Some sn \<Rightarrow> nid n = nid sn)
           in set_nodeEl i
                (\<lambda>e. e\<lparr>c_opacity := Some (if emphasised then 1 else 0.2),
                        c_stroke_width := Some (if selected then 2 else 1)\<rparr>) s))"

text \<open>
  \<open>!selectedNode || l.source.id === selectedNode.id || l.target.id === selectedNode.id\<close>,
  evaluated from left to right; \<open>None\<close> is the \<open>TypeError\<close>.
\<close>

definition link_emphasised :: "simnode list \<Rightarrow> node_desc option \<Rightarrow> simlink \<Rightarrow> bool option" where
  "link_emphasised ns sel l =
     (case sel of
        None \<Rightarrow> Some True
      | Some sn \<Rightarrow>
          (case deref ns (source l) of
             None \<Rightarrow> None
           | Some (_, a) \<Rightarrow>
               if nid a = nid sn then Some True
               else (case deref ns (target l) of
                       None \<Rightarrow> None
                     | Some (_, b) \<Rightarrow> Some (nid b = nid sn))))"

definition highlight_link_of_node :: "node_desc option \<Rightarrow> nat \<Rightarrow> simlink \<Rightarrow> app_state \<Rightarrow> app_state outcome" where
  "highlight_link_of_node sel i l s =
     (case link_emphasised (nodes s) sel l of
        None \<Rightarrow> Threw TypeError s
      | Some emphasised \<Rightarrow>
          and_then
            (set_linkEl i
               (\<lambda>e. e\<lparr>l_opacity := Some (if emphasised then 1 else 0.05),
                       l_stroke_width := Some 1\<rparr>) s)
            (set_hitLineEl i (\<lambda>e. e\<lparr>l_stroke_width := Some 18\<rparr>)))"

text \<open>
  \<open>highlightSelection\<close>. With a link selected, \<open>selectedLink.source.id\<close> and
  \<open>selectedLink.target.id\<close> are read first, a \<open>TypeError\<close> when an end is
  \<open>undefined\<close>. With none, \<open>neighbours\<close> is
  \<open>selectedNode && neighbourMap[selectedNode.id] ? neighbourMap[selectedNode.id] : null\<close>:
  what \<open>neighbourMap[...]\<close> reads, a set or a member of \<open>Object.prototype\<close>, when it
  is defined.
\<close>

definition highlightSelection :: "app_state \<Rightarrow> app_state outcome" where
  "highlightSelection s =
     (if \<not> rendered s then Done s
      else
        (case selectedLink s of
           Some sl \<Rightarrow>
             (case lr_source sl of
                None \<Rightarrow> Threw TypeError s
              | Some srcId \<Rightarrow>
                  (case lr_target sl of
                     None \<Rightarrow> Threw TypeError s
                   | Some tgtId \<Rightarrow>
                       and_then (forEach_i (highlight_node_of_link srcId tgtId) 0 (nodes s) s)
                         (\<lambda>s'. forEach_i (highlight_link_of_link sl) 0 (links s') s')))
         | None \<Rightarrow>
             (let neighbours =
                    (case selectedNode s of
                       None \<Rightarrow> None
                     | Some sn \<Rightarrow> get (neighbourMap s) (nid sn))
              in and_then (forEach_i (highlight_node_of_node (selectedNode s) neighbours) 0 (nodes s) s)
                   (\<lambda>s'. forEach_i (highlight_link_of_node (selectedNode s')) 0 (links s') s'))))"

subsection \<open>Selection\<close>

text \<open>
  \<open>updateDetailsPanel\<close>, as far as the engine is concerned: which panel is shown. The
  panel of a connection reads \<open>src.id\<close> and \<open>tgt.id\<close> before it writes the markup.
\<close>

definition updateDetailsPanel :: "app_state \<Rightarrow> app_state outcome" where
  "updateDetailsPanel s =
     (case selectedLink s of
        Some sl \<Rightarrow>
          (case lr_source sl of
             None \<Rightarrow> Threw TypeError s
           | Some _ \<Rightarrow>
               (case lr_target sl of
                  None \<Rightarrow> Threw TypeError s
                | Some _ \<Rightarrow> Done (s\<lparr>details_panel := LinkPanel\<rparr>)))
      | None \<Rightarrow>
          (case selectedNode s of
             Some _ \<Rightarrow> Done (s\<lparr>details_panel := NodePanel\<rparr>)
           | None \<Rightarrow> Done (s\<lparr>details_panel := DefaultPanel\<rparr>)))"

definition onNodeSelect :: "node_desc option \<Rightarrow> app_state \<Rightarrow> app_state outcome" where
  "onNodeSelect node s =
     and_then (highlightSelection (s\<lparr>selectedNode := node, selectedLink := None\<rparr>))
       updateDetailsPanel"

definition onLinkSelect :: "link_ref \<Rightarrow> app_state \<Rightarrow> app_state outcome" where
  "onLinkSelect link s =
     and_then (highlightSelection (s\<lparr>selectedLink := Some link, selectedNode := None\<rparr>))
       updateDetailsPanel"

text \<open>
  The link with index \<open>k\<close> of the current pass as an object that can be selected: its
  identity, and the ids of its two ends.
\<close>

definition end_id :: "simnode list \<Rightarrow> nat option \<Rightarrow> string option" where
  "end_id ns ref = (case deref ns ref of None \<Rightarrow> None | Some (_, a) \<Rightarrow> Some (nid a))"

definition link_ref_of :: "app_state \<Rightarrow> nat \<Rightarrow> link_ref" where
  "link_ref_of s k =
     \<lparr>lr_pass = pass s, lr_index = k,
      lr_source = end_id (nodes s) (source (links s ! k)),
      lr_target = end_id (nodes s) (target (links s ! k))\<rparr>"

text \<open>The close button of the panel of a connection.\<close>

definition close_link_panel :: "app_state \<Rightarrow> app_state outcome" where
  "close_link_panel s =
     and_then (highlightSelection (s\<lparr>selectedLink := None\<rparr>)) updateDetailsPanel"

text \<open>
  A click on the close button of the details panel: the handler bound by the last
  \<open>updateDetailsPanel\<close> that wrote the panel. The default panel has no button.
\<close>

definition close_button_click :: "app_state \<Rightarrow> app_state outcome" where
  "close_button_click s =
     (case details_panel s of
        LinkPanel \<Rightarrow> close_link_panel s
      | NodePanel \<Rightarrow> onNodeSelect None s
      | DefaultPanel \<Rightarrow> Done s)"

text \<open>
  \<open>removeFromWatchlist(id)\<close>, as far as the selection is concerned:
  \<open>if (selectedNode && selectedNode.id === id) onNodeSelect(null)\<close>.
\<close>

definition removeFromWatchlist :: "string \<Rightarrow> app_state \<Rightarrow> app_state outcome" where
  "removeFromWatchlist a s =
     (case selectedNode s of
        None \<Rightarrow> Done s
      | Some n \<Rightarrow> if nid n = a then onNodeSelect None s else Done s)"

text \<open>\<open>resetPersona\<close>, as far as the selection and the panel are concerned.\<close>

definition resetPersona :: "app_state \<Rightarrow> app_state" where
  "resetPersona s = s\<lparr>selectedNode := None, selectedLink := None, details_panel := DefaultPanel\<rparr>"

subsection \<open>Copying positions to the elements\<close>

text \<open>
  The body of \<open>links.forEach((l, i) => ...)\<close> that copies the ends of a link to its
  two lines, attribute by attribute: the hit line first (\<open>x1, y1\<close> from the source,
  \<open>x2, y2\<close> from the target), then the visible line.
\<close>

definition sync_link :: "nat \<Rightarrow> simlink \<Rightarrow> app_state \<Rightarrow> app_state outcome" where
  "sync_link i l s =
     (if i < length (hitLineEls s) then
        (case deref (nodes s) (source l) of
           None \<Rightarrow> Threw TypeError s
         | Some (_, a) \<Rightarrow>
             and_then (set_hitLineEl i (\<lambda>e. e\<lparr>l_x1 := Some (nx a), l_y1 := Some (ny a)\<rparr>) s)
               (\<lambda>s1. case deref (nodes s1) (target l) of
                         None \<Rightarrow> Threw TypeError s1
                       | Some (_, b) \<Rightarrow>
                           and_then
                             (set_hitLineEl i (\<lambda>e. e\<lparr>l_x2 := Some (nx b), l_y2 := Some (ny b)\<rparr>) s1)
                             (set_linkEl i
                                (\<lambda>e. e\<lparr>l_x1 := Some (nx a), l_y1 := Some (ny a),
                                        l_x2 := Some (nx b), l_y2 := Some (ny b)\<rparr>))))
      else Threw TypeError s)"

definition sync_circles :: "nat \<Rightarrow> simnode \<Rightarrow> app_state \<Rightarrow> app_state outcome" where
  "sync_circles i n s =
     and_then (set_nodeEl i (\<lambda>e. e\<lparr>c_cx := Some (nx n), c_cy := Some (ny n)\<rparr>) s)
       (set_hitNodeEl i (\<lambda>e. e\<lparr>c_cx := Some (nx n), c_cy := Some (ny n)\<rparr>))"

definition sync_text :: "nat \<Rightarrow> simnode \<Rightarrow> app_state \<Rightarrow> app_state outcome" where
  "sync_text i n s = set_textEl i (\<lambda>e. e\<lparr>t_x := Some (nx n), t_y := Some (ny n - 14)\<rparr>) s"

text \<open>\<open>updatePositionsInstant\<close>: the links, the circles, then the labels.\<close>

definition updatePositionsInstant :: "app_state \<Rightarrow> app_state outcome" where
  "updatePositionsInstant s =
     and_then (forEach_i sync_link 0 (links s) s)
       (\<lambda>s1. and_then (forEach_i sync_circles 0 (nodes s1) s1)
                (\<lambda>s2. forEach_i sync_text 0 (nodes s2) s2))"

subsection \<open>Pointer events\<close>

text \<open>
  A mouse event, with the corner of \<open>svgEl.getBoundingClientRect()\<close> at the time of
  the event.
\<close>

record pointer =
  clientX :: real
  clientY :: real
  rect_left :: real
  rect_top :: real

text \<open>
  \<open>(e.clientX - rect.left - offsetX) / scale\<close> and the same for \<open>y\<close>: the point of
  the simulation under the pointer.
\<close>

definition to_sim :: "pointer \<Rightarrow> app_state \<Rightarrow> real \<times> real" where
  "to_sim e s =
     ((clientX e - rect_left e - offsetX s) / scale s,
      (clientY e - rect_top e - offsetY s) / scale s)"

text \<open>
  \<open>mousedown\<close> on the circle (visible or hit circle) of the node with index \<open>i\<close>. The
  event does not reach the handler of the svg element (\<open>stopPropagation\<close>). There are
  circles for the nodes of the pass only.
\<close>

definition node_mousedown :: "nat \<Rightarrow> pointer \<Rightarrow> app_state \<Rightarrow> app_state" where
  "node_mousedown i e s =
     (case deref (nodes s) (Some i) of
        None \<Rightarrow> s
      | Some (_, node) \<Rightarrow>
          (let s1 = s\<lparr>draggingNode := Some i,
                      dragOffset := (nx node - fst (to_sim e s), ny node - snd (to_sim e s))\<rparr>;
               s2 = cancel_simulation s1
           in s2\<lparr>nodes := (nodes s2)[i := node\<lparr>nvx := 0, nvy := 0\<rparr>]\<rparr>))"

text \<open>\<open>click\<close> on a circle of the node with index \<open>i\<close>.\<close>

definition node_click :: "nat \<Rightarrow> app_state \<Rightarrow> app_state outcome" where
  "node_click i s =
     (case deref (nodes s) (Some i) of
        None \<Rightarrow> Done s
      | Some (_, node) \<Rightarrow> onNodeSelect (Some (node_desc.truncate node)) s)"

text \<open>
  \<open>mouseover\<close> and \<open>mouseout\<close> on the visible circle of the node with index \<open>i\<close>:
  the stroke width becomes \<open>2\<close> and \<open>1\<close>.
\<close>

definition node_mouseover :: "nat \<Rightarrow> app_state \<Rightarrow> app_state outcome" where
  "node_mouseover i s = set_nodeEl i (\<lambda>e. e\<lparr>c_stroke_width := Some 2\<rparr>) s"

definition node_mouseout :: "nat \<Rightarrow> app_state \<Rightarrow> app_state outcome" where
  "node_mouseout i s = set_nodeEl i (\<lambda>e. e\<lparr>c_stroke_width := Some 1\<rparr>) s"

text \<open>The element a \<open>mousedown\<close> that reaches the svg element started on.\<close>

datatype target_tag = Svg | G | Text

definition svg_mousedown :: "target_tag \<Rightarrow> pointer \<Rightarrow> app_state \<Rightarrow> app_state" where
  "svg_mousedown tag e s =
     (if tag = Svg \<or> tag = G then s\<lparr>isPanning := True, panStart := (clientX e, clientY e)\<rparr>
      else s)"

definition svg_mousemove :: "pointer \<Rightarrow> app_state \<Rightarrow> app_state outcome" where
  "svg_mousemove e s =
     (case draggingNode s of
        Some i \<Rightarrow>
          (case deref (nodes s) (Some i) of
             None \<Rightarrow> Done s
           | Some (_, node) \<Rightarrow>
               updatePositionsInstant
                 (s\<lparr>nodes := (nodes s)[i := node\<lparr>nx := fst (to_sim e s) + fst (dragOffset s),
                                                  ny := snd (to_sim e s) + snd (dragOffset s)\<rparr>]\<rparr>))
      | None \<Rightarrow>
          if \<not> isPanning s then Done s
          else Done (s\<lparr>offsetX := offsetX s + (clientX e - fst (panStart s)),
                       offsetY := offsetY s + (clientY e - snd (panStart s)),
                       panStart := (clientX e, clientY e)\<rparr>))"

definition svg_mouseup :: "app_state \<Rightarrow> app_state" where
  "svg_mouseup s = s\<lparr>draggingNode := None, isPanning := False\<rparr>"

definition svg_mouseleave :: "app_state \<Rightarrow> app_state" where
  "svg_mouseleave s = s\<lparr>draggingNode := None, isPanning := False\<rparr>"

text \<open>The \<open>wheel\<close> handler; \<open>deltaY\<close> is the field of the event.\<close>

definition svg_wheel :: "pointer \<Rightarrow> real \<Rightarrow> app_state \<Rightarrow> app_state" where
  "svg_wheel e deltaY s =
     (let delta = deltaY * (- 0.001);
          newScale = max 0.5 (min 4 (scale s * (1 + delta)));
          px = clientX e - rect_left e;
          py = clientY e - rect_top e
      in s\<lparr>offsetX := px - (px - offsetX s) * (newScale / scale s),
            offsetY := py - (py - offsetY s) * (newScale / scale s),
            scale := newScale\<rparr>)"

text \<open>
  \<open>updateTransform\<close> writes \<open>translate(offsetX,offsetY) scale(scale)\<close> on the group:
  the point \<open>(X, Y)\<close> of the simulation is drawn at this point of the screen.
\<close>

definition to_screen :: "pointer \<Rightarrow> app_state \<Rightarrow> real \<times> real \<Rightarrow> real \<times> real" where
  "to_screen e s p =
     (rect_left e + offsetX s + scale s * fst p, rect_top e + offsetY s + scale s * snd p)"

subsection \<open>Click on the background\<close>

definition hypot :: "real \<Rightarrow> real \<Rightarrow> real" where
  "hypot a b = sqrt (a * a + b * b)"

definition distToSegment :: "real \<Rightarrow> real \<Rightarrow> real \<Rightarrow> real \<Rightarrow> real \<Rightarrow> real \<Rightarrow> real" where
  "distToSegment px py ax ay bx by =
     (let dx = bx - ax; dy = by - ay in
      if dx = 0 \<and> dy = 0 then hypot (px - ax) (py - ay)
      else
        (let t0 = ((px - ax) * dx + (py - ay) * dy) / (dx * dx + dy * dy);
             t = max 0 (min 1 t0);
             projX = ax + t * dx;
             projY = ay + t * dy
         in hypot (px - projX) (py - projY)))"

text \<open>
  The body of the loop over the links: the state is \<open>(nearest, minDist)\<close>, with
  \<open>None\<close> for \<open>null\<close> and for \<open>Infinity\<close>.
\<close>

definition nearest_step ::
  "simnode list \<Rightarrow> real \<times> real \<Rightarrow> nat \<Rightarrow> simlink \<Rightarrow> nat option \<times> real option \<Rightarrow> (nat option \<times> real option) outcome" where
  "nearest_step ns p i l st =
     (case deref ns (source l) of
        None \<Rightarrow> Threw TypeError st
      | Some (_, a) \<Rightarrow>
          (case deref ns (target l) of
             None \<Rightarrow> Threw TypeError st
           | Some (_, b) \<Rightarrow>
               (let d = distToSegment (fst p) (snd p) (nx a) (ny a) (nx b) (ny b) in
                if (case snd st of None \<Rightarrow> True | Some m \<Rightarrow> d < m) then Done (Some i, Some d)
                else Done st)))"

definition svg_click :: "pointer \<Rightarrow> app_state \<Rightarrow> app_state outcome" where
  "svg_click evt s =
     (case forEach_i (nearest_step (nodes s) (to_sim evt s)) 0 (links s) (None, None) of
        Threw err _ \<Rightarrow> Threw err s
      | Done (nearest, minDist) \<Rightarrow>
          (let thresholdGraph = 25 / scale s in
           case nearest of
             None \<Rightarrow> onNodeSelect None s
           | Some k \<Rightarrow>
               (case minDist of
                  None \<Rightarrow> onNodeSelect None s
                | Some m \<Rightarrow> if m \<le> thresholdGraph then onLinkSelect (link_ref_of s k) s
                            else onNodeSelect None s)))"

subsection \<open>The simulation\<close>

definition linkDistance :: real where "linkDistance = 90"
definition linkStrength :: real where "linkStrength = 0.015"
definition chargeStrength :: real where "chargeStrength = - 200"
definition centerStrength :: real where "centerStrength = 0.0015"
definition damping :: real where "damping = 0.75"
definition clusterStrength :: real where "clusterStrength = 0.1"
definition maxTicks :: nat where "maxTicks = 100"

text \<open>\<open>v || d\<close> on numbers: \<open>d\<close> when \<open>v\<close> is \<open>0\<close>, else \<open>v\<close>.\<close>

definition or_else :: "real \<Rightarrow> real \<Rightarrow> real" where
  "or_else v d = (if v \<noteq> 0 then v else d)"

definition add_force :: "nat \<Rightarrow> real \<Rightarrow> real \<Rightarrow> simnode list \<Rightarrow> simnode list" where
  "add_force i ax ay ns = ns[i := (ns ! i)\<lparr>nfx := nfx (ns ! i) + ax, nfy := nfy (ns ! i) + ay\<rparr>]"

text \<open>The distance the spring force of a link divides by: \<open>Math.sqrt(dx * dx + dy * dy) || 1\<close>.\<close>

definition link_dist :: "real \<Rightarrow> real \<Rightarrow> real" where
  "link_dist dx dy = or_else (sqrt (dx * dx + dy * dy)) 1"

text \<open>
  The body of \<open>links.forEach((l) => ...)\<close> in \<open>tick\<close>: the spring force of one link,
  added to its source and subtracted from its target.
\<close>

definition link_force :: "simlink \<Rightarrow> simnode list \<Rightarrow> simnode list outcome" where
  "link_force l ns =
     (case deref ns (target l) of
        None \<Rightarrow> Threw TypeError ns
      | Some (j, tn) \<Rightarrow>
          (case deref ns (source l) of
             None \<Rightarrow> Threw TypeError ns
           | Some (i, sn) \<Rightarrow>
               (let dx = nx tn - nx sn;
                    dy = ny tn - ny sn;
                    dist = link_dist dx dy;
                    diff = dist - linkDistance;
                    force = linkStrength * diff / dist
                in Done (add_force j (- (dx * force)) (- (dy * force))
                           (add_force i (dx * force) (dy * force) ns)))))"

text \<open>The pairs \<open>(i, j)\<close> of the two nested loops, \<open>i < j < n\<close>, in the order of the loops.\<close>

definition pairs :: "nat \<Rightarrow> (nat \<times> nat) list" where
  "pairs n = concat (map (\<lambda>i. map (Pair i) [Suc i ..< n]) [0 ..< n])"

definition charge_force :: "nat \<times> nat \<Rightarrow> simnode list \<Rightarrow> simnode list" where
  "charge_force ij ns =
     (let n1 = ns ! fst ij;
          n2 = ns ! snd ij;
          dx = nx n2 - nx n1;
          dy = ny n2 - ny n1;
          dist2 = dx * dx + dy * dy + 0.01;
          force = chargeStrength / dist2
      in add_force (snd ij) (dx * force) (dy * force)
           (add_force (fst ij) (- (dx * force)) (- (dy * force)) ns))"

text \<open>The pull to the centre of the surface and to the centre of the category.\<close>

definition centre_force :: "real \<Rightarrow> real \<Rightarrow> (string \<rightharpoonup> real \<times> real) \<Rightarrow> simnode \<Rightarrow> simnode" where
  "centre_force w h centres n =
     (let n1 = n\<lparr>nfx := nfx n + (w / 2 - nx n) * centerStrength,
                 nfy := nfy n + (h / 2 - ny n) * centerStrength\<rparr>
      in case centres (category n) of
           None \<Rightarrow> n1
         | Some centre \<Rightarrow>
             n1\<lparr>nfx := nfx n1 + (fst centre - nx n1) * clusterStrength,
                nfy := nfy n1 + (snd centre - ny n1) * clusterStrength\<rparr>)"

definition integrate :: "simnode \<Rightarrow> simnode" where
  "integrate n =
     (let v1 = (nvx n + nfx n) * damping;
          v2 = (nvy n + nfy n) * damping
      in n\<lparr>nvx := v1, nvy := v2, nx := nx n + v1, ny := ny n + v2\<rparr>)"

text \<open>The body of the last loop over the nodes in \<open>tick\<close>: both circles and the label.\<close>

definition sync_node :: "nat \<Rightarrow> simnode \<Rightarrow> app_state \<Rightarrow> app_state outcome" where
  "sync_node i n s = and_then (sync_circles i n s) (sync_text i n)"

text \<open>The link loop of \<open>tick\<close> on the state: it changes \<open>nodes\<close> only.\<close>

definition link_forces :: "app_state \<Rightarrow> app_state outcome" where
  "link_forces s =
     (case forEach_i (\<lambda>i. link_force) 0 (links s) (nodes s) of
        Done ns \<Rightarrow> Done (s\<lparr>nodes := ns\<rparr>)
      | Threw e ns \<Rightarrow> Threw e (s\<lparr>nodes := ns\<rparr>))"

text \<open>The first loop of \<open>tick\<close>: \<open>n.fx = n.fy = 0\<close> for every node.\<close>

definition reset_forces :: "app_state \<Rightarrow> app_state" where
  "reset_forces s = s\<lparr>nodes := map (\<lambda>n. n\<lparr>nfx := 0, nfy := 0\<rparr>) (nodes s)\<rparr>"

text \<open>
  The loops of \<open>tick\<close> after the springs: the charges of all pairs, the pull to the
  centres for every node, and the integration for every node.
\<close>

definition move_nodes :: "app_state \<Rightarrow> app_state" where
  "move_nodes s =
     (let ns1 = fold charge_force (pairs (length (nodes s))) (nodes s);
          ns2 = map (centre_force (width s) (height s) (clusterCenters s)) ns1
      in s\<lparr>nodes := map integrate ns2\<rparr>)"

text \<open>The last two loops of \<open>tick\<close>: the positions copied to the elements.\<close>

definition sync_positions :: "app_state \<Rightarrow> app_state outcome" where
  "sync_positions s =
     and_then (forEach_i sync_link 0 (links s) s) (\<lambda>s1. forEach_i sync_node 0 (nodes s1) s1)"

text \<open>
  The end of \<open>tick\<close>: \<open>tickCount++\<close>, and the next frame requested while
  \<open>tickCount < maxTicks\<close>, else \<open>simulationId = null\<close>.
\<close>

definition schedule_next :: "app_state \<Rightarrow> app_state" where
  "schedule_next s =
     (let s1 = s\<lparr>tickCount := Suc (tickCount s)\<rparr> in
      if tickCount s1 < maxTicks then requestAnimationFrame s1
      else s1\<lparr>simulationId := None\<rparr>)"

text \<open>\<open>tick\<close>, its steps in the order of the source.\<close>

definition tick :: "app_state \<Rightarrow> app_state outcome" where
  "tick s =
     and_then (link_forces (reset_forces s))
       (\<lambda>s1. and_then (sync_positions (move_nodes s1)) (\<lambda>s2. Done (schedule_next s2)))"

text \<open>
  One frame of the host: the requests that are pending are taken off the queue and
  their callback, \<open>tick\<close>, runs once for each. An exception that leaves a callback is
  reported by the host and the state stays as the callback left it.
\<close>

definition run_frame :: "app_state \<Rightarrow> app_state" where
  "run_frame s = fold (\<lambda>h t. state_of (tick t)) (frame_queue s) (s\<lparr>frame_queue := []\<rparr>)"

subsection \<open>renderGraph\<close>

text \<open>
  What \<open>renderGraph\<close> reads from outside: the dataset \<open>DATA\<close>, the size of the
  container, and \<open>Math.random\<close> (\<open>random k\<close> is the result of its \<open>k\<close>-th call).
\<close>

record dataset =
  data_nodes :: "node_desc list"
  data_links :: "link_desc list"

record surroundings =
  clientWidth :: real
  clientHeight :: real
  random :: "nat \<Rightarrow> real"

text \<open>
  \<open>nodeMap\<close>: a plain object, \<open>nodeMap[node.id] = node\<close> for the nodes in order, a later
  node replacing an earlier one with the same id. For the id \<open>__proto__\<close> the assignment
  stores no property (\<open>put\<close>); it makes the node the prototype of \<open>nodeMap\<close>, and what a
  later read of an absent key then finds depends on every property of that node: this is
  outside the model, and a statement about the ends of links that name no node excludes
  such a node by hypothesis.
\<close>

definition node_entry :: "nat \<times> node_desc \<Rightarrow> (string \<rightharpoonup> nat slot) \<Rightarrow> (string \<rightharpoonup> nat slot)" where
  "node_entry p m = put (nid (snd p)) (Val (fst p)) m"

definition nodeMap :: "node_desc list \<Rightarrow> (string \<rightharpoonup> nat slot)" where
  "nodeMap ds = fold node_entry (enumerate 0 ds) Map.empty"

definition make_node :: "surroundings \<Rightarrow> nat \<times> node_desc \<Rightarrow> simnode" where
  "make_node env p =
     \<lparr>nid = nid (snd p), category = category (snd p), nsize = nsize (snd p),
      nx = random env (2 * fst p) * clientWidth env,
      ny = random env (2 * fst p + 1) * clientHeight env,
      nvx = 0, nvy = 0, nfx = 0, nfy = 0\<rparr>"

text \<open>
  The Graph Data Adapter: lines 222 to 237 of src/app.js. An end of a SimLink is
  \<open>nodeMap[l.source]\<close>: a node, or \<open>undefined\<close> (\<open>None\<close>) when the key is absent. The read
  cannot find a property of \<open>Object.prototype\<close>: \<open>renderGraph\<close> adapts the links only after
  \<open>buildNeighbourMap\<close> has completed on the same links, and it completes for no link that
  names such a property (lemmas \<open>buildNeighbourMap_completes\<close> and
  \<open>adapter_reads_no_inherited\<close>).
\<close>

definition adapt_end :: "(string \<rightharpoonup> nat slot) \<Rightarrow> string \<Rightarrow> nat option" where
  "adapt_end m k = (case get m k of Some (Val i) \<Rightarrow> Some i | _ \<Rightarrow> None)"

definition adapt_nodes :: "surroundings \<Rightarrow> dataset \<Rightarrow> simnode list" where
  "adapt_nodes env d = map (make_node env) (enumerate 0 (data_nodes d))"

definition adapt_links :: "dataset \<Rightarrow> simlink list" where
  "adapt_links d =
     map (\<lambda>l. \<lparr>source = adapt_end (nodeMap (data_nodes d)) (source_id l),
               target = adapt_end (nodeMap (data_nodes d)) (target_id l),
               stype = ltype l, sdescription = description l\<rparr>)
       (data_links d)"

text \<open>\<open>[...new Set(xs)]\<close>: the elements of \<open>xs\<close> in the order of their first occurrence.\<close>

fun insertion_order :: "'a list \<Rightarrow> 'a list \<Rightarrow> 'a list" where
  "insertion_order seen [] = seen"
| "insertion_order seen (a # as) = insertion_order (if a \<in> set seen then seen else seen @ [a]) as"

text \<open>\<open>clusterCenters\<close> is written for every category of a node, and the tick reads it
  only at the category of a node: every read finds the object that was written (for the
  category \<open>__proto__\<close> that object has become the prototype, and the read returns it).\<close>

definition cluster_centres :: "real \<Rightarrow> real \<Rightarrow> simnode list \<Rightarrow> (string \<rightharpoonup> real \<times> real)" where
  "cluster_centres w h ns =
     (let categories = insertion_order [] (map category ns);
          clusterRadius = min w h * 0.4;
          angleStep = (2 * pi) / real (length categories)
      in fold (\<lambda>(idx, cat) m.
                 m(cat \<mapsto> (w / 2 + clusterRadius * cos (real idx * angleStep),
                            h / 2 + clusterRadius * sin (real idx * angleStep))))
           (enumerate 0 categories) Map.empty)"

definition new_circle :: "real \<Rightarrow> circle_el" where
  "new_circle rad = \<lparr>c_r = rad, c_cx = None, c_cy = None, c_opacity = None, c_stroke_width = None\<rparr>"

definition new_line :: "real \<Rightarrow> line_el" where
  "new_line w =
     \<lparr>l_x1 = None, l_y1 = None, l_x2 = None, l_y2 = None, l_opacity = None, l_stroke_width = Some w\<rparr>"

text \<open>
  \<open>render_scene\<close>: the statements of \<open>renderGraph\<close> after its first one. The nodes and
  links it makes are new objects: \<open>pass\<close> counts the passes, so that a link selected in
  an earlier pass is none of the new links.
\<close>

definition render_scene :: "surroundings \<Rightarrow> dataset \<Rightarrow> app_state \<Rightarrow> app_state" where
  "render_scene env d s =
     (let s1 = cancel_simulation s;
          ns = adapt_nodes env d;
          ls = adapt_links d
      in requestAnimationFrame
           (s1\<lparr>rendered := True, pass := Suc (pass s),
               width := clientWidth env, height := clientHeight env,
               nodes := ns, links := ls,
               hitLineEls := map (\<lambda>l. new_line 18) ls,
               linkEls := map (\<lambda>l. new_line 1) ls,
               hitNodeEls := map (\<lambda>n. new_circle (radius n * 3)) ns,
               nodeEls := map (\<lambda>n. new_circle (radius n)) ns,
               textEls := map (\<lambda>n. \<lparr>t_x = None, t_y = None\<rparr>) ns,
               draggingNode := None, dragOffset := (0, 0),
               offsetX := 0, offsetY := 0, scale := 1,
               isPanning := False, panStart := (0, 0),
               clusterCenters := cluster_centres (clientWidth env) (clientHeight env) ns,
               tickCount := 0\<rparr>))"

text \<open>
  \<open>renderGraph\<close>: its first statement is \<open>buildNeighbourMap()\<close>. When that call raises,
  \<open>renderGraph\<close> raises with the state as it was: nothing is cancelled, rendered or
  requested.
\<close>

definition renderGraph :: "surroundings \<Rightarrow> dataset \<Rightarrow> app_state \<Rightarrow> app_state outcome" where
  "renderGraph env d s =
     (case buildNeighbourMap (data_links d) of
        Inl e \<Rightarrow> Threw e s
      | Inr m \<Rightarrow> Done (render_scene env d (s\<lparr>neighbourMap := m\<rparr>)))"

text \<open>
  \<open>renderGraph\<close> leaves the selection as it is. The program renders with no link
  selected: at the start, and after \<open>resetPersona\<close>.
\<close>

text \<open>The state of the module when the script has been loaded: nothing selected,
  nothing rendered, no simulation.\<close>

definition initial_state :: app_state where
  "initial_state =
     \<lparr>selectedNode = None, selectedLink = None, details_panel = DefaultPanel,
      rendered = False, pass = 0, nodes = [], links = [], neighbourMap = Map.empty,
      nodeEls = [], hitNodeEls = [], linkEls = [], hitLineEls = [], textEls = [],
      simulationId = None, offsetX = 0, offsetY = 0, scale = 1,
      draggingNode = None, dragOffset = (0, 0), isPanning = False, panStart = (0, 0),
      tickCount = 0, width = 0, height = 0, clusterCenters = Map.empty,
      frame_queue = [], next_frame = 1, console = []\<rparr>"

subsection \<open>The events of the engine\<close>

text \<open>
  Every way the state of the engine changes: a render pass, a frame of the host, the
  pointer events on the circles and on the svg element, a click on a button that opens
  a node (\<open>onNodeSelect(node)\<close> with a node of the dataset), the close button of the
  details panel, \<open>removeFromWatchlist\<close> and \<open>resetPersona\<close>. An exception that leaves a handler is reported
  by the host; the state stays as the handler left it.
\<close>

datatype ui_event =
    Render surroundings dataset
  | Frame
  | NodeMouseDown nat pointer
  | NodeClick nat
  | NodeMouseOver nat
  | NodeMouseOut nat
  | SvgMouseDown target_tag pointer
  | SvgMouseMove pointer
  | SvgMouseUp
  | SvgMouseLeave
  | SvgWheel pointer real
  | SvgClick pointer
  | OpenNode node_desc
  | CloseButton
  | RemoveFromWatchlist string
  | ResetPersona

fun handle :: "ui_event \<Rightarrow> app_state \<Rightarrow> app_state" where
  "handle (Render env d) s = state_of (renderGraph env d s)"
| "handle Frame s = run_frame s"
| "handle (NodeMouseDown i e) s = node_mousedown i e s"
| "handle (NodeClick i) s = state_of (node_click i s)"
| "handle (NodeMouseOver i) s = state_of (node_mouseover i s)"
| "handle (NodeMouseOut i) s = state_of (node_mouseout i s)"
| "handle (SvgMouseDown tag e) s = svg_mousedown tag e s"
| "handle (SvgMouseMove e) s = state_of (svg_mousemove e s)"
| "handle SvgMouseUp s = svg_mouseup s"
| "handle SvgMouseLeave s = svg_mouseleave s"
| "handle (SvgWheel e deltaY) s = svg_wheel e deltaY s"
| "handle (SvgClick e) s = state_of (svg_click e s)"
| "handle (OpenNode n) s = state_of (onNodeSelect (Some n) s)"
| "handle CloseButton s = state_of (close_button_click s)"
| "handle (RemoveFromWatchlist a) s = state_of (removeFromWatchlist a s)"
| "handle ResetPersona s = resetPersona s"

text \<open>The state after a sequence of events, the first event first.\<close>

definition run_events :: "ui_event list \<Rightarrow> app_state \<Rightarrow> app_state" where
  "run_events evs s = fold handle evs s"

text \<open>At most one of a node and a link is selected.\<close>

definition exclusive :: "app_state \<Rightarrow> bool" where
  "exclusive s = (selectedNode s = None \<or> selectedLink s = None)"

subsection \<open>Notions used in the statements and proofs\<close>

text \<open>
  The part of the state that is not an SVG element, and the lengths of the five arrays
  of elements. Writing attributes changes neither.
\<close>

definition core where
  "core s = (selectedNode s, selectedLink s, details_panel s, rendered s, nodes s, links s,
     neighbourMap s, simulationId s, (offsetX s, offsetY s, scale s), draggingNode s, dragOffset s,
     isPanning s, panStart s, tickCount s, width s, height s, clusterCenters s,
     frame_queue s, next_frame s, pass s, console s)"

definition lens :: "app_state \<Rightarrow> nat \<times> nat \<times> nat \<times> nat \<times> nat" where
  "lens s = (length (nodeEls s), length (hitNodeEls s), length (linkEls s),
     length (hitLineEls s), length (textEls s))"

definition same_core :: "app_state \<Rightarrow> app_state \<Rightarrow> bool" where
  "same_core s t = (core t = core s \<and> lens t = lens s)"

text \<open>The part of the state that a tick of the simulation leaves alone.\<close>

definition steady where
  "steady s = (selectedNode s, selectedLink s, details_panel s, rendered s, links s,
     neighbourMap s, (offsetX s, offsetY s, scale s), draggingNode s, dragOffset s,
     isPanning s, panStart s, width s, height s, clusterCenters s, pass s, console s)"

definition selection :: "app_state \<Rightarrow> node_desc option \<times> link_ref option" where
  "selection s = (selectedNode s, selectedLink s)"

text \<open>
  While the node \<open>i\<close> is dragged with the captured offset \<open>off\<close>, under the view
  transform of \<open>s\<close>.
\<close>

definition dragging :: "nat \<Rightarrow> real \<times> real \<Rightarrow> app_state \<Rightarrow> app_state \<Rightarrow> bool" where
  "dragging i off s t =
     (draggingNode t = Some i \<and> dragOffset t = off \<and> length (nodes t) = length (nodes s) \<and>
      offsetX t = offsetX s \<and> offsetY t = offsetY s \<and> scale t = scale s)"

text \<open>
  The reference \<open>ref\<close> is what the id \<open>a\<close> denotes among the nodes \<open>ns\<close>: a node
  with this id, or \<open>undefined\<close> when no node has it.
\<close>

definition resolves_to :: "simnode list \<Rightarrow> nat option \<Rightarrow> string \<Rightarrow> bool" where
  "resolves_to ns ref a =
     (case ref of
        None \<Rightarrow> a \<notin> set (map nid ns)
      | Some i \<Rightarrow> i < length ns \<and> nid (ns ! i) = a)"

text \<open>The computation ended with an exception.\<close>

fun threw :: "'a outcome \<Rightarrow> bool" where
  "threw (Done s) = False"
| "threw (Threw e s) = True"

text \<open>Both ends of the link are nodes of an array of \<open>n\<close> nodes.\<close>

definition link_resolved :: "nat \<Rightarrow> simlink \<Rightarrow> bool" where
  "link_resolved n l =
     (case source l of
        None \<Rightarrow> False
      | Some i \<Rightarrow> i < n \<and> (case target l of None \<Rightarrow> False | Some j \<Rightarrow> j < n))"

text \<open>
  The state of a render pass without dangling links: every end of every link is a
  node, and there is one element of each kind for every node and every link.
\<close>

definition pass_ok :: "app_state \<Rightarrow> bool" where
  "pass_ok s =
     (list_all (link_resolved (length (nodes s))) (links s) \<and>
      lens s = (length (nodes s), length (nodes s), length (links s), length (links s),
                length (nodes s)))"

text \<open>No link names a property of \<open>Object.prototype\<close>.\<close>

definition plain_links :: "link_desc list \<Rightarrow> bool" where
  "plain_links ls = list_all (\<lambda>l. \<not> inherited (source_id l) \<and> \<not> inherited (target_id l)) ls"

text \<open>Every link of the dataset names nodes of the dataset, and none names a property
  of \<open>Object.prototype\<close>.\<close>

definition dataset_ok :: "dataset \<Rightarrow> bool" where
  "dataset_ok d =
     (plain_links (data_links d) \<and>
      list_all (\<lambda>l. source_id l \<in> set (map nid (data_nodes d)) \<and>
                     target_id l \<in> set (map nid (data_nodes d))) (data_links d))"

text \<open>
  A neighbour index as \<open>buildNeighbourMap\<close> leaves it: its own properties are sets, and
  none has the name of a property of \<open>Object.prototype\<close>.
\<close>

definition own_sets :: "(string \<rightharpoonup> 'v slot) \<Rightarrow> bool" where
  "own_sets m = (\<forall>k. m k \<noteq> Some Inherited \<and> (inherited k \<longrightarrow> m k = None))"



text \<open>
  The state belongs to a render pass of the dataset \<open>d\<close>, without dangling links:
  the neighbour index and the links are those built from \<open>d\<close>, and the nodes have
  the ids of the nodes of \<open>d\<close>, in order.
\<close>

definition pass_of :: "dataset \<Rightarrow> app_state \<Rightarrow> bool" where
  "pass_of d s =
     (rendered s \<and> pass_ok s \<and> buildNeighbourMap (data_links d) = Inr (neighbourMap s) \<and>
      links s = adapt_links d \<and> map nid (nodes s) = map nid (data_nodes d))"

text \<open>
  The distance from the point \<open>p\<close> of the simulation to the segment of the link
  \<open>l\<close>, as \<open>distToSegment\<close> computes it from the positions of the two ends.
\<close>

definition link_distance :: "simnode list \<Rightarrow> real \<times> real \<Rightarrow> simlink \<Rightarrow> real" where
  "link_distance ns p l =
     (case deref ns (source l) of
        None \<Rightarrow> 0
      | Some (_, a) \<Rightarrow>
          (case deref ns (target l) of
             None \<Rightarrow> 0
           | Some (_, b) \<Rightarrow> distToSegment (fst p) (snd p) (nx a) (ny a) (nx b) (ny b)))"

text \<open>
  The Euclidean distance of two points, the point at the fraction \<open>t\<close> of the way from
  the node \<open>a\<close> to the node \<open>b\<close>, and what it is for \<open>d\<close> to be the distance from the
  point \<open>p\<close> to the segment from \<open>a\<close> to \<open>b\<close>: no point of the segment is nearer to
  \<open>p\<close> than \<open>d\<close>, and some point of the segment is at the distance \<open>d\<close>. None of the
  three is defined from \<open>distToSegment\<close>.
\<close>

definition euclid :: "real \<times> real \<Rightarrow> real \<times> real \<Rightarrow> real" where
  "euclid p q = sqrt ((fst p - fst q)\<^sup>2 + (snd p - snd q)\<^sup>2)"

definition segment_point :: "simnode \<Rightarrow> simnode \<Rightarrow> real \<Rightarrow> real \<times> real" where
  "segment_point a b t = (nx a + t * (nx b - nx a), ny a + t * (ny b - ny a))"

definition segment_distance :: "real \<times> real \<Rightarrow> simnode \<Rightarrow> simnode \<Rightarrow> real \<Rightarrow> bool" where
  "segment_distance p a b d =
     ((\<forall>t. 0 \<le> t \<and> t \<le> 1 \<longrightarrow> d \<le> euclid p (segment_point a b t)) \<and>
      (\<exists>t. 0 \<le> t \<and> t \<le> 1 \<and> d = euclid p (segment_point a b t)))"

text \<open>
  After \<open>i\<close> links of the loop of the click handler: \<open>nearest\<close> is the first link
  among them at the least distance and \<open>minDist\<close> is that distance; before the
  first link they are \<open>null\<close> and \<open>Infinity\<close>.
\<close>

definition nearest_so_far ::
  "simnode list \<Rightarrow> real \<times> real \<Rightarrow> simlink list \<Rightarrow> nat \<Rightarrow> nat option \<times> real option \<Rightarrow> bool" where
  "nearest_so_far ns p ls i st =
     (case fst st of
        None \<Rightarrow> i = 0 \<and> snd st = None
      | Some m \<Rightarrow>
          m < i \<and> snd st = Some (link_distance ns p (ls ! m)) \<and>
          (\<forall>j < i. link_distance ns p (ls ! m) \<le> link_distance ns p (ls ! j)) \<and>
          (\<forall>j < m. link_distance ns p (ls ! m) < link_distance ns p (ls ! j)))"

text \<open>
  The view transform, the request of the simulation with the queue of the host, and
  the number of ticks.
\<close>

definition around :: "app_state \<Rightarrow> (real \<times> real \<times> real) \<times> nat option \<times> nat list \<times> nat" where
  "around s = ((offsetX s, offsetY s, scale s), simulationId s, frame_queue s, tickCount s)"

text \<open>At most one request is pending, and it is the one \<open>simulationId\<close> holds.\<close>

definition one_request :: "app_state \<Rightarrow> bool" where
  "one_request s =
     (case frame_queue s of
        [] \<Rightarrow> True
      | [h] \<Rightarrow> simulationId s = Some h
      | _ \<Rightarrow> False)"

text \<open>The zoom factor is between \<open>0.5\<close> and \<open>4\<close>.\<close>

definition scale_in_range :: "app_state \<Rightarrow> bool" where
  "scale_in_range s = (0.5 \<le> scale s \<and> scale s \<le> 4)"

text \<open>
  No more than \<open>maxTicks\<close> ticks have run, and a tick is pending only while fewer
  have run.
\<close>

definition ticks_bounded :: "app_state \<Rightarrow> bool" where
  "ticks_bounded s =
     (tickCount s \<le> maxTicks \<and> (frame_queue s = [] \<or> tickCount s < maxTicks))"

subsection \<open>A small dataset\<close>

text \<open>
  A container of 800 by 600 pixels; \<open>Math.random\<close> returns \<open>1/8\<close> at its first call,
  \<open>3/8\<close> at its third call and \<open>1/2\<close> otherwise, which puts the first node at
  \<open>(100, 300)\<close>, the second at \<open>(300, 300)\<close> and every other node at \<open>(400, 300)\<close>.
\<close>

definition example_env :: surroundings where
  "example_env =
     \<lparr>clientWidth = 800, clientHeight = 600,
      random = (\<lambda>k. if k = 0 then 1 / 8 else if k = 2 then 3 / 8 else 1 / 2)\<rparr>"

text \<open>Three nodes, the first two linked; the third has no size and no link.\<close>

definition example_data :: dataset where
  "example_data =
     \<lparr>data_nodes =
        [\<lparr>nid = ''startup1'', category = ''startup'', nsize = Some 10\<rparr>,
         \<lparr>nid = ''investor1'', category = ''investor'', nsize = Some 8\<rparr>,
         \<lparr>nid = ''person1'', category = ''person'', nsize = None\<rparr>],
      data_links =
        [\<lparr>source_id = ''startup1'', target_id = ''investor1'', ltype = ''investment'',
          description = ''seed round''\<rparr>]\<rparr>"

text \<open>One node and one link to a node that does not exist.\<close>

definition dangling_data :: dataset where
  "dangling_data =
     \<lparr>data_nodes = [\<lparr>nid = ''a'', category = ''startup'', nsize = Some 10\<rparr>],
      data_links = [\<lparr>source_id = ''a'', target_id = ''missing'', ltype = ''support'',
                     description = ''none''\<rparr>]\<rparr>"

text \<open>Two nodes and one link, from the first node to a node that does not exist.\<close>

definition lonely_data :: dataset where
  "lonely_data =
     \<lparr>data_nodes = [\<lparr>nid = ''a'', category = ''startup'', nsize = Some 10\<rparr>,
                    \<lparr>nid = ''x'', category = ''person'', nsize = None\<rparr>],
      data_links = [\<lparr>source_id = ''a'', target_id = ''missing'', ltype = ''support'',
                     description = ''none''\<rparr>]\<rparr>"

text \<open>The state after the first render pass of the small dataset.\<close>

definition example_state :: app_state where
  "example_state = state_of (renderGraph example_env example_data initial_state)"

text \<open>Two nodes without links; the id of the first is the name of a property of
  \<open>Object.prototype\<close>.\<close>

definition constructor_data :: dataset where
  "constructor_data =
     \<lparr>data_nodes =
        [\<lparr>nid = ''constructor'', category = ''startup'', nsize = Some 10\<rparr>,
         \<lparr>nid = ''b'', category = ''startup'', nsize = Some 10\<rparr>],
      data_links = []\<rparr>"

text \<open>One link from \<open>constructor\<close> to \<open>b\<close>.\<close>

definition constructor_link :: link_desc where
  "constructor_link =
     \<lparr>source_id = ''constructor'', target_id = ''b'', ltype = ''support'',
      description = ''none''\<rparr>"

section \<open>Properties\<close>

subsection \<open>Loops, exceptions and what they leave unchanged\<close>

lemma forEach_i_state_of_inv:
  assumes "P s" and "\<And>i a t. P t \<Longrightarrow> P (state_of (f i a t))"
  shows "P (state_of (forEach_i f k xs s))"
  using assms(1)
proof (induction xs arbitrary: k s)
  case Nil
  then show ?case by simp
next
  case (Cons a xs)
  from Cons.prems assms(2) have step: "P (state_of (f k a s))" by blast
  show ?case
  proof (cases "f k a s")
    case (Done s')
    with step Cons.IH show ?thesis by simp
  next
    case (Threw e s')
    with step show ?thesis by simp
  qed
qed

lemma and_then_state_of_inv:
  assumes "P (state_of r)" and "\<And>t. P t \<Longrightarrow> P (state_of (g t))"
  shows "P (state_of (and_then r g))"
  using assms by (cases r) simp_all

lemma same_core_refl [simp]: "same_core s s"
  by (simp add: same_core_def)

lemma same_core_trans: "same_core s t \<Longrightarrow> same_core t u \<Longrightarrow> same_core s u"
  by (simp add: same_core_def)

lemma same_core_set_el:
  "same_core s (state_of (set_nodeEl i f s))"
  "same_core s (state_of (set_hitNodeEl i f s))"
  "same_core s (state_of (set_linkEl i g s))"
  "same_core s (state_of (set_hitLineEl i g s))"
  "same_core s (state_of (set_textEl i h s))"
  by (simp_all add: same_core_def core_def lens_def set_nodeEl_def set_hitNodeEl_def set_linkEl_def
      set_hitLineEl_def set_textEl_def write_el_def)

text \<open>A step that keeps the core, after a state with the core of \<open>s\<close>.\<close>

lemma same_core_step:
  "same_core s t \<Longrightarrow> same_core t (state_of r) \<Longrightarrow> same_core s (state_of r)"
  by (rule same_core_trans)

lemma same_core_and_then:
  assumes "same_core s (state_of r)" and "\<And>t. same_core t (state_of (g t))"
  shows "same_core s (state_of (and_then r g))"
  using assms by (cases r) (auto intro: same_core_trans)

lemma same_core_forEach_i:
  assumes "\<And>i a t. same_core t (state_of (f i a t))"
  shows "same_core s (state_of (forEach_i f k xs s))"
  by (rule forEach_i_state_of_inv [where P = "same_core s"])
     (auto intro: same_core_trans assms)

lemma same_core_highlight_steps:
  "same_core s (state_of (highlight_node_of_link a b i n s))"
  "same_core s (state_of (highlight_link_of_link k i l s))"
  "same_core s (state_of (highlight_node_of_node sn nb i n s))"
  "same_core s (state_of (highlight_link_of_node sn i l s))"
  by (auto simp: highlight_node_of_link_def highlight_link_of_link_def highlight_node_of_node_def
      highlight_link_of_node_def Let_def same_core_set_el split: option.splits
      intro!: same_core_and_then)

lemma same_core_highlightSelection: "same_core s (state_of (highlightSelection s))"
  unfolding highlightSelection_def Let_def
  by (auto split: option.splits prod.splits
      intro!: same_core_and_then same_core_forEach_i same_core_highlight_steps)

lemma same_core_sync_steps:
  "same_core s (state_of (sync_link i l s))"
  "same_core s (state_of (sync_circles i n s))"
  "same_core s (state_of (sync_text i n s))"
  "same_core s (state_of (sync_node i n s))"
  by (auto simp: sync_link_def sync_circles_def sync_text_def sync_node_def same_core_set_el
      split: option.splits intro!: same_core_and_then)

lemma same_core_updatePositionsInstant: "same_core s (state_of (updatePositionsInstant s))"
  unfolding updatePositionsInstant_def
  by (intro same_core_and_then same_core_forEach_i same_core_sync_steps)


subsection \<open>Neighbour index\<close>

lemma inherited_proto [simp]: "inherited ''__proto__''"
  by (simp add: inherited_def proto_keys_def)

lemma inherited_constructor [simp]: "inherited ''constructor''"
  by (simp add: inherited_def proto_keys_def)

lemma own_sets_empty [simp]: "own_sets Map.empty"
  by (simp add: own_sets_def)

lemma own_sets_get:
  assumes "own_sets m"
  shows "get m k = (if inherited k then Some Inherited else m k)"
  using assms by (auto simp: own_sets_def get_def split: option.splits)

lemma own_sets_put:
  assumes "own_sets m" and "\<not> inherited k"
  shows "own_sets (put k (Val v) m)" and "put k (Val v) m = m(k \<mapsto> Val v)"
  using assms by (auto simp: own_sets_def put_def)

text \<open>The two \<open>||\<close> of the body, for a link that names no property of \<open>Object.prototype\<close>.\<close>

lemma ensure_set_plain:
  assumes "own_sets m" and "\<not> inherited k"
  shows "own_sets (ensure_set k m)"
    and "\<exists>S. ensure_set k m k = Some (Val S)"
    and "neighbour_of m a b \<Longrightarrow> neighbour_of (ensure_set k m) a b"
    and "\<And>j. j \<noteq> k \<Longrightarrow> ensure_set k m j = m j"
proof -
  from assms have get: "get m k = m k" by (simp add: own_sets_get)
  from assms have k: "k \<noteq> ''__proto__''" by auto
  show "own_sets (ensure_set k m)"
    using assms by (auto simp: ensure_set_def get put_def k own_sets_def split: option.splits)
  show "\<exists>S. ensure_set k m k = Some (Val S)"
    using assms(1) by (cases "m k"; cases "the (m k)")
      (auto simp: ensure_set_def get put_def k own_sets_def)
  show "neighbour_of (ensure_set k m) a b" if "neighbour_of m a b"
    using that
    by (auto simp: neighbour_of_def ensure_set_def get_def put_def k split: option.splits slot.splits if_splits)
  show "ensure_set k m j = m j" if "j \<noteq> k" for j
    using that by (simp add: ensure_set_def put_def)
qed

lemma set_add_plain:
  assumes "own_sets m" and "\<not> inherited k" and "m k = Some (Val S)"
  shows "set_add k v m = Inr (m(k \<mapsto> Val (insert v S)))"
    and "own_sets (m(k \<mapsto> Val (insert v S)))"
    and "neighbour_of (m(k \<mapsto> Val (insert v S))) k v"
    and "neighbour_of m a b \<Longrightarrow> neighbour_of (m(k \<mapsto> Val (insert v S))) a b"
proof -
  from assms have get: "get m k = Some (Val S)" by (simp add: own_sets_get)
  from assms have k: "k \<noteq> ''__proto__''" by auto
  show "set_add k v m = Inr (m(k \<mapsto> Val (insert v S)))"
    by (simp add: set_add_def get put_def k)
  show "own_sets (m(k \<mapsto> Val (insert v S)))"
    using assms by (auto simp: own_sets_def)
  show "neighbour_of (m(k \<mapsto> Val (insert v S))) k v"
    by (simp add: neighbour_of_def get_def)
  show "neighbour_of (m(k \<mapsto> Val (insert v S))) a b" if "neighbour_of m a b"
    using that assms(3)
    by (auto simp: neighbour_of_def get_def split: option.splits slot.splits if_splits)
qed

lemma add_link_plain:
  assumes "own_sets m" and "\<not> inherited (source_id l)" and "\<not> inherited (target_id l)"
  shows "\<exists>m'. add_link l m = Inr m' \<and> own_sets m' \<and>
           (\<forall>a b. neighbour_of m a b \<longrightarrow> neighbour_of m' a b) \<and>
           neighbour_of m' (source_id l) (target_id l) \<and>
           neighbour_of m' (target_id l) (source_id l) \<and>
           (\<forall>j. j \<noteq> source_id l \<longrightarrow> j \<noteq> target_id l \<longrightarrow> m' j = m j)"
proof -
  let ?a = "source_id l" and ?b = "target_id l"
  let ?m1 = "ensure_set ?a m"
  let ?m2 = "ensure_set ?b ?m1"
  note e1 = ensure_set_plain [OF assms(1) assms(2)]
  note e2 = ensure_set_plain [OF e1(1) assms(3)]
  have "\<exists>S. ?m2 ?a = Some (Val S)"
    using e1(2) e2(2) e2(4) [of ?a] by (cases "?a = ?b") auto
  then obtain S where S: "?m2 ?a = Some (Val S)" ..
  let ?m3 = "?m2(?a \<mapsto> Val (insert ?b S))"
  note a1 = set_add_plain [where v = "?b", OF e2(1) assms(2) S]
  have "\<exists>T. ?m3 ?b = Some (Val T)"
    using e2(2) by (cases "?a = ?b") auto
  then obtain T where T: "?m3 ?b = Some (Val T)" ..
  let ?m4 = "?m3(?b \<mapsto> Val (insert ?a T))"
  note a2 = set_add_plain [where v = "?a", OF a1(2) assms(3) T]
  have run: "add_link l m = Inr ?m4"
    by (simp only: add_link_def a1(1) a2(1) sum.case)
  have mono: "neighbour_of ?m4 x y" if "neighbour_of m x y" for x y
    by (rule a2(4) [OF a1(4) [OF e2(3) [OF e1(3) [OF that]]]])
  have rest: "?m4 j = m j" if "j \<noteq> ?a" "j \<noteq> ?b" for j
    using that e1(4) [of j] e2(4) [of j] by simp
  from run a2(2) mono a2(4) [OF a1(3)] a2(3) rest show ?thesis by blast
qed

text \<open>A link that names a property of \<open>Object.prototype\<close>: the \<open>||\<close> keeps the inherited
  member, and \<open>add\<close> is not a method of it.\<close>

lemma add_link_inherited:
  assumes "own_sets m" and "inherited (source_id l) \<or> inherited (target_id l)"
  shows "add_link l m = Inl TypeError"
proof (cases "inherited (source_id l)")
  case True
  with assms(1) have "m (source_id l) = None" by (simp add: own_sets_def)
  then have "get (ensure_set (target_id l) (ensure_set (source_id l) m)) (source_id l) = Some Inherited"
    using True by (auto simp: ensure_set_def get_def put_def split: option.splits)
  then show ?thesis by (simp add: add_link_def set_add_def)
next
  case False
  with assms(2) have b: "inherited (target_id l)" by simp
  with False have ne: "source_id l \<noteq> target_id l" by auto
  note e1 = ensure_set_plain [OF assms(1) False]
  from e1(1) b have none: "ensure_set (source_id l) m (target_id l) = None"
    by (simp add: own_sets_def)
  let ?m2 = "ensure_set (target_id l) (ensure_set (source_id l) m)"
  from e1(2) obtain S where "ensure_set (source_id l) m (source_id l) = Some (Val S)" ..
  then have S: "?m2 (source_id l) = Some (Val S)"
    using ne by (simp add: ensure_set_def [of "target_id l"] put_def)
  have "get ?m2 (target_id l) = Some Inherited"
    using none b by (auto simp: ensure_set_def [of "target_id l"] get_def put_def)
  then have "get (put (source_id l) (Val (insert (target_id l) S)) ?m2) (target_id l) = Some Inherited"
    using ne by (auto simp: get_def put_def split: option.splits)
  moreover have "get ?m2 (source_id l) = Some (Val S)"
    using S by (simp add: get_def)
  ultimately show ?thesis by (simp add: add_link_def set_add_def)
qed

lemma add_links_plain:
  assumes "own_sets m" and "plain_links ls"
  shows "\<exists>m'. add_links ls m = Inr m' \<and> own_sets m' \<and>
           (\<forall>a b. neighbour_of m a b \<longrightarrow> neighbour_of m' a b) \<and>
           (\<forall>l \<in> set ls. neighbour_of m' (source_id l) (target_id l) \<and>
                          neighbour_of m' (target_id l) (source_id l)) \<and>
           (\<forall>j. j \<notin> source_id ` set ls \<longrightarrow> j \<notin> target_id ` set ls \<longrightarrow> m' j = m j)"
  using assms
proof (induction ls arbitrary: m)
  case Nil
  then show ?case by simp
next
  case (Cons l ls)
  from Cons.prems(2) have plain: "\<not> inherited (source_id l)" "\<not> inherited (target_id l)" "plain_links ls"
    by (simp_all add: plain_links_def)
  from add_link_plain [OF Cons.prems(1) plain(1,2)]
  obtain m1 where m1: "add_link l m = Inr m1" "own_sets m1"
      "\<forall>a b. neighbour_of m a b \<longrightarrow> neighbour_of m1 a b"
      "neighbour_of m1 (source_id l) (target_id l)" "neighbour_of m1 (target_id l) (source_id l)"
      "\<forall>j. j \<noteq> source_id l \<longrightarrow> j \<noteq> target_id l \<longrightarrow> m1 j = m j"
    by blast
  from Cons.IH [OF m1(2) plain(3)]
  obtain m' where m': "add_links ls m1 = Inr m'" "own_sets m'"
      "\<forall>a b. neighbour_of m1 a b \<longrightarrow> neighbour_of m' a b"
      "\<forall>l \<in> set ls. neighbour_of m' (source_id l) (target_id l) \<and>
                     neighbour_of m' (target_id l) (source_id l)"
      "\<forall>j. j \<notin> source_id ` set ls \<longrightarrow> j \<notin> target_id ` set ls \<longrightarrow> m' j = m1 j"
    by blast
  have "add_links (l # ls) m = Inr m'" using m1(1) m'(1) by simp
  moreover have "\<forall>a b. neighbour_of m a b \<longrightarrow> neighbour_of m' a b" using m1(3) m'(3) by blast
  moreover have "\<forall>k \<in> set (l # ls). neighbour_of m' (source_id k) (target_id k) \<and>
                     neighbour_of m' (target_id k) (source_id k)"
    using m1(4,5) m'(3,4) by auto
  moreover have "\<forall>j. j \<notin> source_id ` set (l # ls) \<longrightarrow> j \<notin> target_id ` set (l # ls) \<longrightarrow> m' j = m j"
    using m1(6) m'(5) by auto
  ultimately show ?case using m'(2) by blast
qed

lemma add_links_inherited:
  assumes "own_sets m" and "\<not> plain_links ls"
  shows "add_links ls m = Inl TypeError"
  using assms
proof (induction ls arbitrary: m)
  case Nil
  then show ?case by (simp add: plain_links_def)
next
  case (Cons l ls)
  show ?case
  proof (cases "inherited (source_id l) \<or> inherited (target_id l)")
    case True
    from add_link_inherited [OF Cons.prems(1) True] show ?thesis by simp
  next
    case False
    with Cons.prems(2) have rest: "\<not> plain_links ls" by (simp add: plain_links_def)
    from False add_link_plain [OF Cons.prems(1)]
    obtain m1 where m1: "add_link l m = Inr m1" "own_sets m1" by blast
    from Cons.IH [OF m1(2) rest] m1(1) show ?thesis by simp
  qed
qed

text \<open>When \<open>buildNeighbourMap\<close> completes, no link names a property of
  \<open>Object.prototype\<close>, and every own property of the index is a set.\<close>

lemma buildNeighbourMap_completes:
  assumes "buildNeighbourMap ls = Inr m"
  shows "plain_links ls" and "own_sets m"
proof -
  show plain: "plain_links ls"
    using assms add_links_inherited [of Map.empty ls] by (auto simp: buildNeighbourMap_def)
  from add_links_plain [OF own_sets_empty plain] assms show "own_sets m"
    by (auto simp: buildNeighbourMap_def)
qed

lemma buildNeighbourMap_plain:
  assumes "plain_links ls"
  shows "\<exists>m. buildNeighbourMap ls = Inr m \<and> own_sets m \<and>
           (\<forall>j. j \<notin> source_id ` set ls \<longrightarrow> j \<notin> target_id ` set ls \<longrightarrow> m j = None)"
  using add_links_plain [OF own_sets_empty assms] by (auto simp: buildNeighbourMap_def)

text \<open>
  C7, as the code has it. For every link list in which no source or target id is the name of a
  property of \<open>Object.prototype\<close>, \<open>buildNeighbourMap\<close> completes and the neighbour index
  it builds is symmetric: for every link \<open>(a, b)\<close> of the list, \<open>b\<close> is in the set stored
  under \<open>a\<close> and \<open>a\<close> is in the set stored under \<open>b\<close>. For every other link list it
  raises \<open>TypeError\<close> and builds no index.
\<close>

theorem buildNeighbourMap_symmetric:
  "(plain_links ls \<longrightarrow>
      (\<exists>m. buildNeighbourMap ls = Inr m \<and>
           (\<forall>l \<in> set ls. neighbour_of m (source_id l) (target_id l) \<and>
                          neighbour_of m (target_id l) (source_id l)))) \<and>
   (\<not> plain_links ls \<longrightarrow> buildNeighbourMap ls = Inl TypeError)"
proof (intro conjI impI)
  assume "plain_links ls"
  from add_links_plain [OF own_sets_empty this]
  show "\<exists>m. buildNeighbourMap ls = Inr m \<and>
           (\<forall>l \<in> set ls. neighbour_of m (source_id l) (target_id l) \<and>
                          neighbour_of m (target_id l) (source_id l))"
    unfolding buildNeighbourMap_def by blast
next
  assume "\<not> plain_links ls"
  from add_links_inherited [OF own_sets_empty this]
  show "buildNeighbourMap ls = Inl TypeError" by (simp add: buildNeighbourMap_def)
qed

theorem buildNeighbourMap_symmetric_witness:
  "plain_links
     [\<lparr>source_id = ''startup1'', target_id = ''investor1'', ltype = ''investment'', description = ''seed''\<rparr>,
      \<lparr>source_id = ''uni1'', target_id = ''startup1'', ltype = ''spinout'', description = ''none''\<rparr>] \<and>
   (\<exists>m. buildNeighbourMap
        [\<lparr>source_id = ''startup1'', target_id = ''investor1'', ltype = ''investment'', description = ''seed''\<rparr>,
         \<lparr>source_id = ''uni1'', target_id = ''startup1'', ltype = ''spinout'', description = ''none''\<rparr>]
        = Inr m \<and>
      neighbour_of m ''investor1'' ''startup1'' \<and> neighbour_of m ''startup1'' ''uni1'')"
proof -
  let ?ls = "[\<lparr>source_id = ''startup1'', target_id = ''investor1'', ltype = ''investment'', description = ''seed''\<rparr>,
      \<lparr>source_id = ''uni1'', target_id = ''startup1'', ltype = ''spinout'', description = ''none''\<rparr>]"
  have plain: "plain_links ?ls"
    by (simp add: plain_links_def inherited_def proto_keys_def)
  with buildNeighbourMap_symmetric [of ?ls]
  have "\<exists>m. buildNeighbourMap ?ls = Inr m \<and>
          neighbour_of m ''investor1'' ''startup1'' \<and> neighbour_of m ''startup1'' ''uni1''"
    by simp blast
  with plain show ?thesis by (rule conjI)
qed

text \<open>A link from \<open>constructor\<close>: \<open>map['constructor']\<close> reads the inherited function, the
  \<open>||\<close> keeps it, and \<open>add\<close> raises.\<close>

theorem buildNeighbourMap_constructor:
  "buildNeighbourMap [constructor_link] = Inl TypeError"
  by (simp add: buildNeighbourMap_def constructor_link_def add_link_def set_add_def ensure_set_def
      get_def put_def inherited_def proto_keys_def)

subsection \<open>renderGraph raises or renders\<close>

lemma render_scene_fields:
  "nodes (render_scene env d s) = adapt_nodes env d"
  "links (render_scene env d s) = adapt_links d"
  "scale (render_scene env d s) = 1"
  "offsetX (render_scene env d s) = 0"
  "offsetY (render_scene env d s) = 0"
  "rendered (render_scene env d s)"
  "tickCount (render_scene env d s) = 0"
  "pass (render_scene env d s) = Suc (pass s)"
  "neighbourMap (render_scene env d s) = neighbourMap s"
  "selectedNode (render_scene env d s) = selectedNode s"
  "selectedLink (render_scene env d s) = selectedLink s"
  "console (render_scene env d s) = console s"
  "nodeEls (render_scene env d s) = map (\<lambda>n. new_circle (radius n)) (adapt_nodes env d)"
  by (simp_all add: render_scene_def Let_def requestAnimationFrame_def cancel_simulation_def
      split: option.splits)

text \<open>\<open>renderGraph\<close> raises, with the state as it was, or it renders with the index built.\<close>

lemma renderGraph_cases:
  obtains (raises) "renderGraph env d s = Threw TypeError s" "\<not> plain_links (data_links d)"
  | (renders) m where "buildNeighbourMap (data_links d) = Inr m" "plain_links (data_links d)"
      "own_sets m" "renderGraph env d s = Done (render_scene env d (s\<lparr>neighbourMap := m\<rparr>))"
proof (cases "plain_links (data_links d)")
  case True
  from buildNeighbourMap_plain [OF True] obtain m
    where m: "buildNeighbourMap (data_links d) = Inr m" "own_sets m" by blast
  then have "renderGraph env d s = Done (render_scene env d (s\<lparr>neighbourMap := m\<rparr>))"
    by (simp add: renderGraph_def)
  with m(1) True m(2) show ?thesis by (rule renders)
next
  case False
  from add_links_inherited [OF own_sets_empty False]
  have "renderGraph env d s = Threw TypeError s"
    by (simp add: renderGraph_def buildNeighbourMap_def)
  then show ?thesis using False by (rule raises)
qed

lemma renderGraph_threw: "threw (renderGraph env d s) \<longleftrightarrow> \<not> plain_links (data_links d)"
  by (rule renderGraph_cases [of env d s]) simp_all

subsection \<open>Marker radius\<close>

lemma radius_render_scene:
  "i < length (data_nodes d) \<Longrightarrow>
   c_r (nodeEls (render_scene env d s) ! i) =
     (case nsize (data_nodes d ! i) of
        None \<Rightarrow> 5
      | Some sz \<Rightarrow> if sz = 0 then 5 else max 4 (3 + sz * 0.25))
   \<and> 4 \<le> c_r (nodeEls (render_scene env d s) ! i)"
  by (simp add: render_scene_fields adapt_nodes_def new_circle_def radius_def
        make_node_def nth_enumerate_eq split: option.splits)

text \<open>
  C9, as the code has it. The radius of the visible circle of every node is
  \<open>max(4, 3 + size * 0.25)\<close> when \<open>size\<close> is defined and not zero, and \<open>5\<close> when
  \<open>size\<close> is undefined or zero; it is never below \<open>4\<close>. This is the radius the
  statements of \<open>renderGraph\<close> after \<open>buildNeighbourMap()\<close> give the circle from any
  state, and so the radius of the circle whenever \<open>renderGraph\<close> returns.
\<close>

theorem marker_radius:
  "i < length (data_nodes d) \<Longrightarrow>
   c_r (nodeEls (render_scene env d s) ! i) =
     (case nsize (data_nodes d ! i) of
        None \<Rightarrow> 5
      | Some sz \<Rightarrow> if sz = 0 then 5 else max 4 (3 + sz * 0.25))
   \<and> 4 \<le> c_r (nodeEls (render_scene env d s) ! i)
   \<and> (\<forall>s'. renderGraph env d s = Done s' \<longrightarrow>
         c_r (nodeEls s' ! i) =
           (case nsize (data_nodes d ! i) of
              None \<Rightarrow> 5
            | Some sz \<Rightarrow> if sz = 0 then 5 else max 4 (3 + sz * 0.25))
         \<and> 4 \<le> c_r (nodeEls s' ! i))"
proof -
  assume i: "i < length (data_nodes d)"
  have "c_r (nodeEls s' ! i) =
           (case nsize (data_nodes d ! i) of
              None \<Rightarrow> 5
            | Some sz \<Rightarrow> if sz = 0 then 5 else max 4 (3 + sz * 0.25))
         \<and> 4 \<le> c_r (nodeEls s' ! i)" if "renderGraph env d s = Done s'" for s'
  proof (rule renderGraph_cases [of env d s])
    assume "renderGraph env d s = Threw TypeError s"
    with that show ?thesis by simp
  next
    fix m
    assume "renderGraph env d s = Done (render_scene env d (s\<lparr>neighbourMap := m\<rparr>))"
    with that have eq: "s' = render_scene env d (s\<lparr>neighbourMap := m\<rparr>)" by simp
    show ?thesis unfolding eq by (rule radius_render_scene [OF i])
  qed
  with radius_render_scene [OF i, of env s] show ?thesis by blast
qed

theorem marker_radius_witness:
  "renderGraph example_env
      \<lparr>data_nodes = [\<lparr>nid = ''person1'', category = ''person'', nsize = Some 6\<rparr>,
                      \<lparr>nid = ''person2'', category = ''person'', nsize = None\<rparr>],
       data_links = []\<rparr> initial_state =
     Done (render_scene example_env
      \<lparr>data_nodes = [\<lparr>nid = ''person1'', category = ''person'', nsize = Some 6\<rparr>,
                      \<lparr>nid = ''person2'', category = ''person'', nsize = None\<rparr>],
       data_links = []\<rparr> initial_state)
   \<and> c_r (nodeEls (state_of (renderGraph example_env
      \<lparr>data_nodes = [\<lparr>nid = ''person1'', category = ''person'', nsize = Some 6\<rparr>,
                      \<lparr>nid = ''person2'', category = ''person'', nsize = None\<rparr>],
       data_links = []\<rparr> initial_state)) ! 0) = 4.5"
proof -
  let ?d = "\<lparr>data_nodes = [\<lparr>nid = ''person1'', category = ''person'', nsize = Some 6\<rparr>,
                      \<lparr>nid = ''person2'', category = ''person'', nsize = None\<rparr>],
       data_links = []\<rparr>"
  have run: "renderGraph example_env ?d initial_state = Done (render_scene example_env ?d initial_state)"
    by (simp add: renderGraph_def buildNeighbourMap_def initial_state_def)
  with marker_radius [of 0 ?d example_env initial_state] show ?thesis by simp
qed

text \<open>
  The claim as the specification states it fails for a node of size \<open>0\<close>: its size is
  defined, \<open>max(4, 3 + 0 * 0.25)\<close> is \<open>4\<close>, and the circle gets the radius \<open>5\<close>.
\<close>

theorem marker_radius_size_zero:
  "c_r (nodeEls (state_of (renderGraph example_env
      \<lparr>data_nodes = [\<lparr>nid = ''a'', category = ''startup'', nsize = Some 0\<rparr>], data_links = []\<rparr>
      initial_state)) ! 0) = 5
   \<and> c_r (nodeEls (state_of (renderGraph example_env
      \<lparr>data_nodes = [\<lparr>nid = ''a'', category = ''startup'', nsize = Some 0\<rparr>], data_links = []\<rparr>
      initial_state)) ! 0) \<noteq> max 4 (3 + 0 * 0.25)"
  by (simp add: renderGraph_def buildNeighbourMap_def render_scene_fields adapt_nodes_def
      new_circle_def radius_def make_node_def enumerate_eq_zip)

subsection \<open>Selection\<close>

lemma same_core_sel: "same_core s t \<Longrightarrow> selection t = selection s"
  by (simp add: same_core_def core_def selection_def)

lemma sel_highlightSelection: "selection (state_of (highlightSelection s)) = selection s"
  by (rule same_core_sel) (rule same_core_highlightSelection)

lemma sel_updateDetailsPanel: "selection (state_of (updateDetailsPanel s)) = selection s"
  by (simp add: updateDetailsPanel_def selection_def split: option.splits)

lemma sel_select:
  "selection (state_of (and_then (highlightSelection s) updateDetailsPanel)) = selection s"
  by (rule and_then_state_of_inv [where P = "\<lambda>t. selection t = selection s"])
     (simp_all add: sel_highlightSelection sel_updateDetailsPanel)

lemma sel_onNodeSelect: "selection (state_of (onNodeSelect node s)) = (node, None)"
  unfolding onNodeSelect_def by (subst sel_select) (simp add: selection_def)

lemma sel_onLinkSelect: "selection (state_of (onLinkSelect k s)) = (None, Some k)"
  unfolding onLinkSelect_def by (subst sel_select) (simp add: selection_def)

lemma sel_close_link_panel: "selection (state_of (close_link_panel s)) = (selectedNode s, None)"
  unfolding close_link_panel_def by (subst sel_select) (simp add: selection_def)

lemma same_core_steady: "same_core s t \<Longrightarrow> steady t = steady s"
  by (simp add: same_core_def core_def steady_def)

lemma steady_selection: "steady t = steady s \<Longrightarrow> selection t = selection s"
  by (simp add: steady_def selection_def)

lemma steady_link_forces: "steady (state_of (link_forces s)) = steady s"
  by (simp add: link_forces_def steady_def split: outcome.splits)

lemma steady_sync_positions: "steady (state_of (sync_positions s)) = steady s"
proof -
  have "same_core s (state_of (sync_positions s))"
    unfolding sync_positions_def
    by (intro same_core_and_then same_core_forEach_i same_core_sync_steps)
  then show ?thesis by (rule same_core_steady)
qed

lemma steady_schedule_next: "steady (schedule_next s) = steady s"
  by (simp add: schedule_next_def steady_def requestAnimationFrame_def Let_def)

lemma steady_tick: "steady (state_of (tick s)) = steady s"
proof -
  let ?P = "\<lambda>t. steady t = steady s"
  have 1: "?P (state_of (link_forces (reset_forces s)))"
    by (simp add: steady_link_forces) (simp add: steady_def reset_forces_def)
  have 2: "?P (state_of (sync_positions (move_nodes t)))" if "?P t" for t
    using that by (simp add: steady_sync_positions) (simp add: steady_def move_nodes_def Let_def)
  have 3: "?P (state_of (Done (schedule_next t)))" if "?P t" for t
    using that by (simp add: steady_schedule_next)
  show ?thesis
    unfolding tick_def
    by (intro and_then_state_of_inv [where P = ?P] 1 2 3)
qed

lemma sel_tick: "selection (state_of (tick s)) = selection s"
  by (rule steady_selection) (rule steady_tick)

lemma sel_run_frame: "selection (run_frame s) = selection s"
proof -
  have "selection (fold (\<lambda>h t. state_of (tick t)) q t) = selection t" for q :: "nat list" and t
    by (induction q arbitrary: t) (simp_all add: sel_tick)
  then show ?thesis by (simp add: run_frame_def selection_def)
qed

lemma sel_renderGraph: "selection (state_of (renderGraph env d s)) = selection s"
  by (simp add: renderGraph_def render_scene_def Let_def selection_def requestAnimationFrame_def
      cancel_simulation_def split: option.splits sum.splits)

lemma sel_svg_click:
  "selection (state_of (svg_click e s)) = selection s \<or>
   selection (state_of (svg_click e s)) = (None, None) \<or>
   (\<exists>k. selection (state_of (svg_click e s)) = (None, Some k))"
  by (auto simp: svg_click_def Let_def sel_onNodeSelect sel_onLinkSelect
      split: outcome.splits option.splits prod.splits)

lemma exclusive_sel: "exclusive s \<longleftrightarrow> fst (selection s) = None \<or> snd (selection s) = None"
  by (simp add: exclusive_def selection_def)

lemma exclusive_handle: "exclusive s \<Longrightarrow> exclusive (handle ev s)"
proof (cases ev)
  case (Render env d)
  then show "exclusive s \<Longrightarrow> ?thesis" by (simp add: exclusive_sel sel_renderGraph)
next
  case Frame
  then show "exclusive s \<Longrightarrow> ?thesis" by (simp add: exclusive_sel sel_run_frame)
next
  case (NodeMouseDown i e)
  then show "exclusive s \<Longrightarrow> ?thesis"
    by (auto simp: exclusive_def node_mousedown_def Let_def cancel_simulation_def
        split: option.splits)
next
  case (NodeClick i)
  then show "exclusive s \<Longrightarrow> ?thesis"
    by (auto simp: exclusive_sel node_click_def sel_onNodeSelect split: option.splits)
next
  case (NodeMouseOver i)
  show "exclusive s \<Longrightarrow> ?thesis"
    using same_core_sel [OF same_core_set_el(1)]
    by (simp add: NodeMouseOver exclusive_sel node_mouseover_def)
next
  case (NodeMouseOut i)
  show "exclusive s \<Longrightarrow> ?thesis"
    using same_core_sel [OF same_core_set_el(1)]
    by (simp add: NodeMouseOut exclusive_sel node_mouseout_def)
next
  case (SvgMouseDown tag e)
  then show "exclusive s \<Longrightarrow> ?thesis" by (simp add: exclusive_def svg_mousedown_def)
next
  case (SvgMouseMove e)
  show "exclusive s \<Longrightarrow> ?thesis"
    using same_core_sel [OF same_core_updatePositionsInstant]
    by (auto simp: SvgMouseMove exclusive_sel svg_mousemove_def selection_def split: option.splits)
next
  case SvgMouseUp
  then show "exclusive s \<Longrightarrow> ?thesis" by (simp add: exclusive_def svg_mouseup_def)
next
  case SvgMouseLeave
  then show "exclusive s \<Longrightarrow> ?thesis" by (simp add: exclusive_def svg_mouseleave_def)
next
  case (SvgWheel e dy)
  then show "exclusive s \<Longrightarrow> ?thesis" by (simp add: exclusive_def svg_wheel_def Let_def)
next
  case (SvgClick e)
  show "exclusive s \<Longrightarrow> ?thesis"
    using sel_svg_click [of e s] by (auto simp: SvgClick exclusive_sel)
next
  case (OpenNode n)
  then show ?thesis by (simp add: exclusive_sel sel_onNodeSelect)
next
  case CloseButton
  then show "exclusive s \<Longrightarrow> ?thesis"
    by (auto simp: exclusive_sel close_button_click_def sel_close_link_panel sel_onNodeSelect
        split: panel.splits)
next
  case (RemoveFromWatchlist a)
  then show "exclusive s \<Longrightarrow> ?thesis"
    by (auto simp: exclusive_sel removeFromWatchlist_def sel_onNodeSelect split: option.splits)
next
  case ResetPersona
  then show ?thesis by (simp add: exclusive_def resetPersona_def)
qed

text \<open>
  C8. After any sequence of events (node select, link select, close button, a click
  that misses, and every other event of the engine), never a node and a link are both
  selected: the selection is none, a node, or a link.
\<close>

theorem selection_exclusive:
  "exclusive s \<Longrightarrow> exclusive (run_events evs s)"
  unfolding run_events_def
  by (induction evs arbitrary: s) (simp_all add: exclusive_handle)

theorem selection_exclusive_witness:
  "exclusive initial_state \<and>
   exclusive (run_events
     [OpenNode \<lparr>nid = ''startup1'', category = ''startup'', nsize = Some 10\<rparr>, CloseButton,
      SvgClick \<lparr>clientX = 10, clientY = 10, rect_left = 0, rect_top = 0\<rparr>] initial_state)"
  using selection_exclusive [of initial_state
     "[OpenNode \<lparr>nid = ''startup1'', category = ''startup'', nsize = Some 10\<rparr>, CloseButton,
      SvgClick \<lparr>clientX = 10, clientY = 10, rect_left = 0, rect_top = 0\<rparr>]"]
  by (simp add: exclusive_def initial_state_def)

subsection \<open>The small dataset, rendered\<close>

lemma example_renders:
  "renderGraph example_env example_data initial_state =
     Done (render_scene example_env example_data
       (initial_state\<lparr>neighbourMap :=
          [''startup1'' \<mapsto> Val {''investor1''}, ''investor1'' \<mapsto> Val {''startup1''}]\<rparr>))"
  by (simp add: renderGraph_def buildNeighbourMap_def example_data_def add_link_def set_add_def
      ensure_set_def get_def put_def inherited_def proto_keys_def)

lemmas example_state_eq = example_state_def [unfolded example_renders state_of.simps]

lemma example_nodes:
  "nodes example_state =
     [\<lparr>nid = ''startup1'', category = ''startup'', nsize = Some 10,
       nx = 100, ny = 300, nvx = 0, nvy = 0, nfx = 0, nfy = 0\<rparr>,
      \<lparr>nid = ''investor1'', category = ''investor'', nsize = Some 8,
       nx = 300, ny = 300, nvx = 0, nvy = 0, nfx = 0, nfy = 0\<rparr>,
      \<lparr>nid = ''person1'', category = ''person'', nsize = None,
       nx = 400, ny = 300, nvx = 0, nvy = 0, nfx = 0, nfy = 0\<rparr>]"
  by (simp add: example_state_eq render_scene_fields adapt_nodes_def example_data_def
      example_env_def make_node_def enumerate_eq_zip upt_rec)

lemma example_links:
  "links example_state =
     [\<lparr>source = Some 0, target = Some 1, stype = ''investment'', sdescription = ''seed round''\<rparr>]"
  by (simp add: example_state_eq render_scene_fields adapt_links_def example_data_def
      nodeMap_def node_entry_def adapt_end_def get_def put_def enumerate_eq_zip upt_rec)

lemma example_view:
  "scale example_state = 1" "offsetX example_state = 0" "offsetY example_state = 0"
  by (simp_all add: example_state_eq render_scene_fields)

subsection \<open>Zoom\<close>

text \<open>
  C3. A wheel event at the screen point \<open>P\<close>, from a scale in \<open>[0.5, 4]\<close>: the new
  scale is \<open>clamp(scale * (1 + deltaY * -0.001), 0.5, 4)\<close>, the new offset is
  \<open>P - (P - offset) * (newScale / oldScale)\<close> on both axes (\<open>P\<close> taken relative to the
  corner of the svg element), the point of the simulation that was under the pointer
  before the event is drawn under the pointer after it, and the new scale is in
  \<open>[0.5, 4]\<close>. Numbers are reals here, so the point maps back exactly.
\<close>

theorem wheel_zoom:
  assumes "0.5 \<le> scale s" and "scale s \<le> 4"
  shows "scale (svg_wheel e deltaY s) = max 0.5 (min 4 (scale s * (1 + deltaY * (- 0.001))))
    \<and> offsetX (svg_wheel e deltaY s) =
        (clientX e - rect_left e)
        - ((clientX e - rect_left e) - offsetX s) * (scale (svg_wheel e deltaY s) / scale s)
    \<and> offsetY (svg_wheel e deltaY s) =
        (clientY e - rect_top e)
        - ((clientY e - rect_top e) - offsetY s) * (scale (svg_wheel e deltaY s) / scale s)
    \<and> to_screen e (svg_wheel e deltaY s) (to_sim e s) = (clientX e, clientY e)
    \<and> 0.5 \<le> scale (svg_wheel e deltaY s) \<and> scale (svg_wheel e deltaY s) \<le> 4"
proof -
  from assms have nz: "scale s \<noteq> 0" by simp
  let ?k = "max 0.5 (min 4 (scale s * (1 + deltaY * (- 0.001))))"
  have sc: "scale (svg_wheel e deltaY s) = ?k"
    by (simp add: svg_wheel_def Let_def)
  have ox: "offsetX (svg_wheel e deltaY s) =
        (clientX e - rect_left e) - ((clientX e - rect_left e) - offsetX s) * (?k / scale s)"
    by (simp add: svg_wheel_def Let_def)
  have oy: "offsetY (svg_wheel e deltaY s) =
        (clientY e - rect_top e) - ((clientY e - rect_top e) - offsetY s) * (?k / scale s)"
    by (simp add: svg_wheel_def Let_def)
  have fixed: "to_screen e (svg_wheel e deltaY s) (to_sim e s) = (clientX e, clientY e)"
    unfolding to_screen_def to_sim_def fst_conv snd_conv sc ox oy
    using nz by (simp add: field_simps)
  have range: "0.5 \<le> ?k \<and> ?k \<le> 4" by simp
  show ?thesis using sc ox oy fixed range by simp
qed

theorem wheel_zoom_witness:
  "0.5 \<le> scale example_state \<and> scale example_state \<le> 4
   \<and> scale (svg_wheel \<lparr>clientX = 130, clientY = 80, rect_left = 30, rect_top = 30\<rparr> (- 100) example_state) = 1.1
   \<and> offsetX (svg_wheel \<lparr>clientX = 130, clientY = 80, rect_left = 30, rect_top = 30\<rparr> (- 100) example_state) = - 10
   \<and> to_screen \<lparr>clientX = 130, clientY = 80, rect_left = 30, rect_top = 30\<rparr>
        (svg_wheel \<lparr>clientX = 130, clientY = 80, rect_left = 30, rect_top = 30\<rparr> (- 100) example_state)
        (to_sim \<lparr>clientX = 130, clientY = 80, rect_left = 30, rect_top = 30\<rparr> example_state) = (130, 80)"
  using wheel_zoom [of example_state "\<lparr>clientX = 130, clientY = 80, rect_left = 30, rect_top = 30\<rparr>" "- 100"]
  by (simp add: example_view)

subsection \<open>Dragging a node\<close>

lemma same_core_core: "same_core s t \<Longrightarrow> core t = core s"
  by (simp add: same_core_def)

text \<open>A pointer move while the node \<open>i\<close> is dragged: the node is put under the pointer,
  shifted by the captured offset; nothing else of the core changes.\<close>

lemma core_drag_move:
  assumes "draggingNode s = Some i" and "i < length (nodes s)"
  shows "core (state_of (svg_mousemove e s)) =
         core (s\<lparr>nodes := (nodes s)[i := (nodes s ! i)\<lparr>nx := fst (to_sim e s) + fst (dragOffset s),
                                                       ny := snd (to_sim e s) + snd (dragOffset s)\<rparr>]\<rparr>)"
  using assms
  by (simp add: svg_mousemove_def deref_def same_core_core [OF same_core_updatePositionsInstant])

lemma dragging_mousedown:
  "i < length (nodes s) \<Longrightarrow>
   dragging i (nx (nodes s ! i) - fst (to_sim e s), ny (nodes s ! i) - snd (to_sim e s)) s
     (node_mousedown i e s)"
  by (simp add: dragging_def node_mousedown_def deref_def Let_def cancel_simulation_def
      split: option.splits)

lemma drag_move_fields:
  assumes "draggingNode s = Some i" and "i < length (nodes s)"
  shows "draggingNode (state_of (svg_mousemove e s)) = Some i"
    and "dragOffset (state_of (svg_mousemove e s)) = dragOffset s"
    and "offsetX (state_of (svg_mousemove e s)) = offsetX s"
    and "offsetY (state_of (svg_mousemove e s)) = offsetY s"
    and "scale (state_of (svg_mousemove e s)) = scale s"
    and "nodes (state_of (svg_mousemove e s)) =
           (nodes s)[i := (nodes s ! i)\<lparr>nx := fst (to_sim e s) + fst (dragOffset s),
                                          ny := snd (to_sim e s) + snd (dragOffset s)\<rparr>]"
  using core_drag_move [OF assms, of e] assms(1) unfolding core_def by simp_all

lemma dragging_move:
  assumes "dragging i off s t" and "i < length (nodes s)"
  shows "dragging i off s (state_of (svg_mousemove e t))"
    and "nx (nodes (state_of (svg_mousemove e t)) ! i) = fst (to_sim e t) + fst off"
    and "ny (nodes (state_of (svg_mousemove e t)) ! i) = snd (to_sim e t) + snd off"
proof -
  from assms have d: "draggingNode t = Some i" and i: "i < length (nodes t)"
    and off: "dragOffset t = off"
    by (simp_all add: dragging_def)
  note c = drag_move_fields [OF d i, of e]
  show "dragging i off s (state_of (svg_mousemove e t))"
    using assms(1) unfolding dragging_def c by simp
  show "nx (nodes (state_of (svg_mousemove e t)) ! i) = fst (to_sim e t) + fst off"
    unfolding c using i off by simp
  show "ny (nodes (state_of (svg_mousemove e t)) ! i) = snd (to_sim e t) + snd off"
    unfolding c using i off by simp
qed

lemma dragging_moves:
  assumes "dragging i off s t" and "i < length (nodes s)"
  shows "dragging i off s (run_events (map SvgMouseMove es) t)"
  using assms(1)
  by (induction es arbitrary: t) (simp_all add: run_events_def dragging_move(1) [OF _ assms(2)])

lemma to_sim_same_view:
  "offsetX t = offsetX s \<Longrightarrow> offsetY t = offsetY s \<Longrightarrow> scale t = scale s \<Longrightarrow> to_sim e t = to_sim e s"
  by (simp add: to_sim_def)

text \<open>
  C4. A drag that starts with \<open>mousedown\<close> at \<open>e0\<close> on the node \<open>i\<close> and moves the
  pointer, through any positions, to \<open>e1\<close>, with no change of pan, zoom or of the corner
  of the svg element: the captured offset is the position of the node minus the point
  of the simulation under \<open>e0\<close> and is still that after the moves; the node is at the
  point under \<open>e1\<close> plus this offset, which is its position at the start plus
  \<open>(e1 - e0) / scale\<close>.
\<close>

theorem drag_follows_pointer:
  assumes "i < length (nodes s)" and "0 < scale s"
    and "rect_left e1 = rect_left e0" and "rect_top e1 = rect_top e0"
  shows "dragOffset (run_events (NodeMouseDown i e0 # map SvgMouseMove (es @ [e1])) s)
           = (nx (nodes s ! i) - fst (to_sim e0 s), ny (nodes s ! i) - snd (to_sim e0 s))
    \<and> nx (nodes (run_events (NodeMouseDown i e0 # map SvgMouseMove (es @ [e1])) s) ! i)
           = fst (to_sim e1 s) + (nx (nodes s ! i) - fst (to_sim e0 s))
    \<and> ny (nodes (run_events (NodeMouseDown i e0 # map SvgMouseMove (es @ [e1])) s) ! i)
           = snd (to_sim e1 s) + (ny (nodes s ! i) - snd (to_sim e0 s))
    \<and> nx (nodes (run_events (NodeMouseDown i e0 # map SvgMouseMove (es @ [e1])) s) ! i)
           = nx (nodes s ! i) + (clientX e1 - clientX e0) / scale s
    \<and> ny (nodes (run_events (NodeMouseDown i e0 # map SvgMouseMove (es @ [e1])) s) ! i)
           = ny (nodes s ! i) + (clientY e1 - clientY e0) / scale s"
proof -
  let ?off = "(nx (nodes s ! i) - fst (to_sim e0 s), ny (nodes s ! i) - snd (to_sim e0 s))"
  let ?t = "run_events (map SvgMouseMove es) (node_mousedown i e0 s)"
  let ?u = "state_of (svg_mousemove e1 ?t)"
  have run: "run_events (NodeMouseDown i e0 # map SvgMouseMove (es @ [e1])) s = ?u"
    by (simp add: run_events_def)
  have t: "dragging i ?off s ?t"
    by (rule dragging_moves [OF dragging_mousedown [OF assms(1)] assms(1)])
  then have sim: "to_sim e1 ?t = to_sim e1 s"
    by (intro to_sim_same_view) (simp_all add: dragging_def)
  have u: "dragging i ?off s ?u"
    and x: "nx (nodes ?u ! i) = fst (to_sim e1 s) + fst ?off"
    and y: "ny (nodes ?u ! i) = snd (to_sim e1 s) + snd ?off"
    using dragging_move [OF t assms(1), of e1] sim by simp_all
  have x': "fst (to_sim e1 s) + fst ?off = nx (nodes s ! i) + (clientX e1 - clientX e0) / scale s"
    unfolding to_sim_def fst_conv assms(3) by (simp add: diff_divide_distrib)
  have y': "snd (to_sim e1 s) + snd ?off = ny (nodes s ! i) + (clientY e1 - clientY e0) / scale s"
    unfolding to_sim_def snd_conv assms(4) by (simp add: diff_divide_distrib)
  from u have c1: "dragOffset ?u = ?off" by (simp add: dragging_def)
  from x have c2: "nx (nodes ?u ! i) = fst (to_sim e1 s) + (nx (nodes s ! i) - fst (to_sim e0 s))"
    by (simp only: fst_conv)
  from y have c3: "ny (nodes ?u ! i) = snd (to_sim e1 s) + (ny (nodes s ! i) - snd (to_sim e0 s))"
    by (simp only: snd_conv)
  from x x' have c4: "nx (nodes ?u ! i) = nx (nodes s ! i) + (clientX e1 - clientX e0) / scale s"
    by (rule trans)
  from y y' have c5: "ny (nodes ?u ! i) = ny (nodes s ! i) + (clientY e1 - clientY e0) / scale s"
    by (rule trans)
  show ?thesis
    unfolding run by (intro conjI c1 c2 c3 c4 c5)
qed

theorem drag_follows_pointer_witness:
  "1 < length (nodes example_state) \<and> 0 < scale example_state
   \<and> nx (nodes (run_events
        [NodeMouseDown 1 \<lparr>clientX = 305, clientY = 298, rect_left = 0, rect_top = 0\<rparr>,
         SvgMouseMove \<lparr>clientX = 320, clientY = 290, rect_left = 0, rect_top = 0\<rparr>,
         SvgMouseMove \<lparr>clientX = 345, clientY = 238, rect_left = 0, rect_top = 0\<rparr>] example_state) ! 1) = 340
   \<and> ny (nodes (run_events
        [NodeMouseDown 1 \<lparr>clientX = 305, clientY = 298, rect_left = 0, rect_top = 0\<rparr>,
         SvgMouseMove \<lparr>clientX = 320, clientY = 290, rect_left = 0, rect_top = 0\<rparr>,
         SvgMouseMove \<lparr>clientX = 345, clientY = 238, rect_left = 0, rect_top = 0\<rparr>] example_state) ! 1) = 240"
  using drag_follows_pointer [of 1 example_state
      "\<lparr>clientX = 345, clientY = 238, rect_left = 0, rect_top = 0\<rparr>"
      "\<lparr>clientX = 305, clientY = 298, rect_left = 0, rect_top = 0\<rparr>"
      "[\<lparr>clientX = 320, clientY = 290, rect_left = 0, rect_top = 0\<rparr>]"]
  by (simp add: example_view example_nodes)

subsection \<open>The spring force of a link\<close>





subsection \<open>The Graph Data Adapter\<close>

lemma nodeMap_fold_other:
  "a \<notin> set (map nid ds) \<Longrightarrow>
   fold node_entry (enumerate k ds) m0 a = m0 a"
  by (induction ds arbitrary: k m0) (auto simp: node_entry_def put_def)

lemma nodeMap_fold_member:
  "a \<in> set (map nid ds) \<Longrightarrow> a \<noteq> ''__proto__'' \<Longrightarrow>
   \<exists>i. fold node_entry (enumerate k ds) m0 a = Some (Val i)
       \<and> k \<le> i \<and> i < k + length ds \<and> nid (ds ! (i - k)) = a"
proof (induction ds arbitrary: k m0)
  case Nil
  then show ?case by simp
next
  case (Cons n ds)
  have step: "fold node_entry (enumerate k (n # ds)) m0 =
      fold node_entry (enumerate (Suc k) ds) (put (nid n) (Val k) m0)"
    by (simp add: node_entry_def)
  show ?case
  proof (cases "a \<in> set (map nid ds)")
    case True
    from Cons.IH [OF True Cons.prems(2), of "Suc k" "put (nid n) (Val k) m0"]
    obtain i where i: "fold node_entry (enumerate (Suc k) ds) (put (nid n) (Val k) m0) a = Some (Val i)"
      "Suc k \<le> i" "i < Suc k + length ds" "nid (ds ! (i - Suc k)) = a"
      by blast
    from i(2) have "i - k = Suc (i - Suc k)" by arith
    then have "(n # ds) ! (i - k) = ds ! (i - Suc k)" by simp
    with i show ?thesis unfolding step by (intro exI [of _ i]) simp
  next
    case False
    with Cons.prems have a: "a = nid n" by simp
    from False have "fold node_entry (enumerate (Suc k) ds) (put (nid n) (Val k) m0) a
        = (put (nid n) (Val k) m0) a"
      by (rule nodeMap_fold_other)
    with a Cons.prems(2) show ?thesis unfolding step by (intro exI [of _ k]) (simp add: put_def)
  qed
qed

lemma nid_adapt_nodes: "map nid (adapt_nodes env d) = map nid (data_nodes d)"
  by (simp add: adapt_nodes_def make_node_def list_eq_iff_nth_eq nth_enumerate_eq)

lemma length_adapt_nodes: "length (adapt_nodes env d) = length (data_nodes d)"
  by (simp add: adapt_nodes_def)

text \<open>What \<open>nodeMap[a]\<close> reads for an id \<open>a\<close> that is not the name of a property of
  \<open>Object.prototype\<close>: the index of a node with this id, or nothing.\<close>

lemma adapt_end_plain:
  assumes "\<not> inherited a"
  shows "a \<in> set (map nid ds) \<Longrightarrow>
           \<exists>i. adapt_end (nodeMap ds) a = Some i \<and> i < length ds \<and> nid (ds ! i) = a"
    and "a \<notin> set (map nid ds) \<Longrightarrow> adapt_end (nodeMap ds) a = None"
proof -
  from assms have a: "a \<noteq> ''__proto__''" by auto
  show "\<exists>i. adapt_end (nodeMap ds) a = Some i \<and> i < length ds \<and> nid (ds ! i) = a"
    if "a \<in> set (map nid ds)"
    using nodeMap_fold_member [OF that a, of 0 Map.empty]
    by (auto simp: nodeMap_def adapt_end_def get_def)
  show "adapt_end (nodeMap ds) a = None" if "a \<notin> set (map nid ds)"
    using nodeMap_fold_other [OF that, of 0 Map.empty] assms
    by (simp add: nodeMap_def adapt_end_def get_def)
qed

lemma resolves_to_adapt_end:
  assumes "\<not> inherited a"
  shows "resolves_to (adapt_nodes env d) (adapt_end (nodeMap (data_nodes d)) a) a"
proof (cases "a \<in> set (map nid (data_nodes d))")
  case True
  from adapt_end_plain(1) [OF assms True]
  obtain i where "adapt_end (nodeMap (data_nodes d)) a = Some i" "i < length (data_nodes d)"
    "nid (data_nodes d ! i) = a"
    by blast
  then show ?thesis
    by (simp add: resolves_to_def length_adapt_nodes adapt_nodes_def make_node_def nth_enumerate_eq)
next
  case False
  with adapt_end_plain(2) [OF assms False] show ?thesis
    by (simp add: resolves_to_def nid_adapt_nodes)
qed

text \<open>The adapter never reads a member of \<open>Object.prototype\<close> from \<open>nodeMap\<close>.\<close>

lemma nodeMap_fold_values:
  "m0 a \<noteq> Some Inherited \<Longrightarrow> fold node_entry (enumerate k ds) m0 a \<noteq> Some Inherited"
  by (induction ds arbitrary: k m0) (simp_all add: node_entry_def put_def)

lemma adapter_reads_no_inherited:
  assumes "buildNeighbourMap (data_links d) = Inr m" and "l \<in> set (data_links d)"
  shows "get (nodeMap (data_nodes d)) (source_id l) \<noteq> Some Inherited"
    and "get (nodeMap (data_nodes d)) (target_id l) \<noteq> Some Inherited"
proof -
  from buildNeighbourMap_completes(1) [OF assms(1)] assms(2)
  have "\<not> inherited (source_id l)" "\<not> inherited (target_id l)"
    by (simp_all add: plain_links_def list_all_iff)
  moreover have "nodeMap (data_nodes d) a \<noteq> Some Inherited" for a
    unfolding nodeMap_def by (rule nodeMap_fold_values) simp
  ultimately show "get (nodeMap (data_nodes d)) (source_id l) \<noteq> Some Inherited"
    and "get (nodeMap (data_nodes d)) (target_id l) \<noteq> Some Inherited"
    by (auto simp: get_def split: option.splits)
qed

lemma plain_links_nth:
  "plain_links ls \<Longrightarrow> k < length ls \<Longrightarrow>
   \<not> inherited (source_id (ls ! k)) \<and> \<not> inherited (target_id (ls ! k))"
  by (simp add: plain_links_def list_all_length)

text \<open>
  C1, as the code has it. For every input dataset in which no link names a property of
  \<open>Object.prototype\<close> and no node has the id \<open>__proto__\<close>, \<open>renderGraph\<close> returns without
  raising and writes nothing to the console, and the adapter keeps every link of the
  dataset: there is one link of the simulation for each, in the same order; an end whose
  id is the id of a node refers to a node with this id, and an end whose id is absent
  from the node set is left \<open>undefined\<close>. Nothing is dropped and nothing is reported.
\<close>

theorem adapter_keeps_every_link:
  assumes "plain_links (data_links d)" and "''__proto__'' \<notin> set (map nid (data_nodes d))"
  shows "\<not> threw (renderGraph env d s)
   \<and> console (state_of (renderGraph env d s)) = console s
   \<and> length (links (state_of (renderGraph env d s))) = length (data_links d)
   \<and> (\<forall>k < length (data_links d).
        resolves_to (nodes (state_of (renderGraph env d s)))
          (source (links (state_of (renderGraph env d s)) ! k)) (source_id (data_links d ! k))
      \<and> resolves_to (nodes (state_of (renderGraph env d s)))
          (target (links (state_of (renderGraph env d s)) ! k)) (target_id (data_links d ! k)))"
proof (rule renderGraph_cases [of env d s])
  assume "\<not> plain_links (data_links d)"
  with assms(1) show ?thesis by simp
next
  fix m
  assume run: "renderGraph env d s = Done (render_scene env d (s\<lparr>neighbourMap := m\<rparr>))"
  have "resolves_to (adapt_nodes env d) (source (adapt_links d ! k)) (source_id (data_links d ! k)) \<and>
        resolves_to (adapt_nodes env d) (target (adapt_links d ! k)) (target_id (data_links d ! k))"
    if "k < length (data_links d)" for k
    using that plain_links_nth [OF assms(1) that]
    by (simp add: adapt_links_def resolves_to_adapt_end)
  then show ?thesis
    by (simp add: run render_scene_fields) (simp add: adapt_links_def)
qed

lemma dangling_renders:
  "renderGraph example_env dangling_data initial_state =
     Done (render_scene example_env dangling_data
       (initial_state\<lparr>neighbourMap := [''a'' \<mapsto> Val {''missing''}, ''missing'' \<mapsto> Val {''a''}]\<rparr>))"
  by (simp add: renderGraph_def buildNeighbourMap_def dangling_data_def add_link_def set_add_def
      ensure_set_def get_def put_def inherited_def proto_keys_def)

lemma dangling_links:
  "links (state_of (renderGraph example_env dangling_data initial_state)) =
     [\<lparr>source = Some 0, target = None, stype = ''support'', sdescription = ''none''\<rparr>]"
  by (simp add: dangling_renders render_scene_fields)
     (simp add: adapt_links_def dangling_data_def nodeMap_def node_entry_def adapt_end_def get_def
       put_def inherited_def proto_keys_def enumerate_eq_zip)

theorem adapter_keeps_every_link_witness:
  "plain_links (data_links dangling_data)
   \<and> ''__proto__'' \<notin> set (map nid (data_nodes dangling_data))
   \<and> \<not> threw (renderGraph example_env dangling_data initial_state)
   \<and> console (state_of (renderGraph example_env dangling_data initial_state)) = []
   \<and> length (links (state_of (renderGraph example_env dangling_data initial_state))) = 1
   \<and> source (links (state_of (renderGraph example_env dangling_data initial_state)) ! 0) = Some 0
   \<and> resolves_to (nodes (state_of (renderGraph example_env dangling_data initial_state))) None ''missing''"
proof -
  have hyps: "plain_links (data_links dangling_data)"
    "''__proto__'' \<notin> set (map nid (data_nodes dangling_data))"
    by (simp_all add: dangling_data_def plain_links_def inherited_def proto_keys_def)
  from adapter_keeps_every_link [OF hyps, of example_env initial_state] hyps
  show ?thesis
    by (simp add: dangling_links) (simp add: dangling_data_def initial_state_def)
qed

text \<open>
  The claim as the specification states it fails for one node \<open>a\<close> and one link from
  \<open>a\<close> to \<open>missing\<close>: the adapter produces one link, whose target is
  \<open>undefined\<close>, nothing is written to the console, and the first \<open>tick\<close> raises a
  \<open>TypeError\<close> when it reads \<open>l.target.x\<close>.
\<close>

lemma threw_and_then: "threw r \<Longrightarrow> threw (and_then r f)"
  by (cases r) simp_all

theorem dangling_link_is_kept:
  "length (links (state_of (renderGraph example_env dangling_data initial_state))) \<noteq> 0
   \<and> target (links (state_of (renderGraph example_env dangling_data initial_state)) ! 0) = None
   \<and> console (state_of (renderGraph example_env dangling_data initial_state)) = []
   \<and> threw (tick (state_of (renderGraph example_env dangling_data initial_state)))"
proof -
  have 1: "threw (link_forces (t\<lparr>nodes := ns\<rparr>))"
    if "links t = [\<lparr>source = Some 0, target = None, stype = ''support'', sdescription = ''none''\<rparr>]"
    for t ns
    using that by (simp add: link_forces_def link_force_def deref_def)
  then have "threw (tick t)"
    if "links t = [\<lparr>source = Some 0, target = None, stype = ''support'', sdescription = ''none''\<rparr>]"
    for t
    unfolding tick_def reset_forces_def using that by (intro threw_and_then 1)
  moreover have "console (state_of (renderGraph example_env dangling_data initial_state)) = []"
    by (simp add: dangling_renders render_scene_fields) (simp add: initial_state_def)
  ultimately show ?thesis by (simp add: dangling_links)
qed

subsection \<open>The ticks of a pass without dangling links\<close>

lemma not_threw_Done: "\<not> threw r \<Longrightarrow> r = Done (state_of r)"
  by (cases r) simp_all



lemma length_add_force [simp]: "length (add_force i a b ns) = length ns"
  by (simp add: add_force_def)



lemma length_charge_force [simp]: "length (charge_force ij ns) = length ns"
  by (simp add: charge_force_def Let_def)

lemma length_fold_charge_force [simp]: "length (fold charge_force ps ns) = length ns"
  by (induction ps arbitrary: ns) simp_all

lemma same_core_fields:
  assumes "same_core s t"
  shows "nodes t = nodes s" "links t = links s" "tickCount t = tickCount s"
    "simulationId t = simulationId s" "frame_queue t = frame_queue s" "next_frame t = next_frame s"
    "length (nodeEls t) = length (nodeEls s)" "length (hitNodeEls t) = length (hitNodeEls s)"
    "length (linkEls t) = length (linkEls s)" "length (hitLineEls t) = length (hitLineEls s)"
    "length (textEls t) = length (textEls s)"
  using assms by (simp_all add: same_core_def core_def lens_def)

lemma same_core_pass_ok: "same_core s t \<Longrightarrow> pass_ok s \<Longrightarrow> pass_ok t"
  by (simp add: pass_ok_def same_core_def core_def)

lemma pass_ok_lens:
  assumes "pass_ok s"
  shows "length (nodeEls s) = length (nodes s)" "length (hitNodeEls s) = length (nodes s)"
    "length (linkEls s) = length (links s)" "length (hitLineEls s) = length (links s)"
    "length (textEls s) = length (nodes s)"
  using assms by (simp_all add: pass_ok_def lens_def)












lemma links_resolved_adapter:
  assumes "dataset_ok d"
  shows "list_all (link_resolved (length (adapt_nodes env d))) (adapt_links d)"
proof -
  have "link_resolved (length (adapt_nodes env d))
          \<lparr>source = adapt_end (nodeMap (data_nodes d)) a, target = adapt_end (nodeMap (data_nodes d)) b,
           stype = t, sdescription = x\<rparr>"
    if "a \<in> set (map nid (data_nodes d))" "\<not> inherited a"
      and "b \<in> set (map nid (data_nodes d))" "\<not> inherited b" for a b t x
    using adapt_end_plain(1) [OF that(2,1)] adapt_end_plain(1) [OF that(4,3)]
    by (auto simp: link_resolved_def length_adapt_nodes)
  with assms show ?thesis
    by (auto simp: dataset_ok_def plain_links_def adapt_links_def list_all_iff)
qed


lemma dataset_ok_renders:
  assumes "dataset_ok d"
  obtains m where "buildNeighbourMap (data_links d) = Inr m" "own_sets m"
    "renderGraph env d s = Done (render_scene env d (s\<lparr>neighbourMap := m\<rparr>))"
proof (rule renderGraph_cases [of env d s])
  assume "\<not> plain_links (data_links d)"
  with assms show ?thesis by (simp add: dataset_ok_def)
next
  fix m
  assume "buildNeighbourMap (data_links d) = Inr m" "own_sets m"
    "renderGraph env d s = Done (render_scene env d (s\<lparr>neighbourMap := m\<rparr>))"
  then show ?thesis by (rule that)
qed







subsection \<open>Highlighting a node without links\<close>

lemma forEach_i_indexed:
  assumes "I k s"
    and "\<And>i t. I i t \<Longrightarrow> k \<le> i \<Longrightarrow> i < k + length xs \<Longrightarrow>
           \<not> threw (f i (xs ! (i - k)) t) \<and> I (Suc i) (state_of (f i (xs ! (i - k)) t))"
  shows "\<not> threw (forEach_i f k xs s) \<and> I (k + length xs) (state_of (forEach_i f k xs s))"
  using assms
proof (induction xs arbitrary: k s)
  case Nil
  then show ?case by simp
next
  case (Cons a xs)
  have "\<not> threw (f k ((a # xs) ! (k - k)) s) \<and> I (Suc k) (state_of (f k ((a # xs) ! (k - k)) s))"
    using Cons.prems(1) by (intro Cons.prems(2)) simp_all
  then obtain s' where s': "f k a s = Done s'" "I (Suc k) s'"
    by (cases "f k a s") simp_all
  have "\<not> threw (forEach_i f (Suc k) xs s') \<and>
        I (Suc k + length xs) (state_of (forEach_i f (Suc k) xs s'))"
  proof (rule Cons.IH [OF s'(2)])
    fix i t
    assume i: "I i t" "Suc k \<le> i" "i < Suc k + length xs"
    then have "i - k = Suc (i - Suc k)" by arith
    then have nth: "(a # xs) ! (i - k) = xs ! (i - Suc k)" by simp
    from i have "\<not> threw (f i ((a # xs) ! (i - k)) t) \<and> I (Suc i) (state_of (f i ((a # xs) ! (i - k)) t))"
      by (intro Cons.prems(2)) simp_all
    then show "\<not> threw (f i (xs ! (i - Suc k)) t) \<and> I (Suc i) (state_of (f i (xs ! (i - Suc k)) t))"
      unfolding nth .
  qed
  with s' show ?case by simp
qed

text \<open>Writing the element \<open>i\<close> of the circles of the nodes.\<close>

lemma set_nodeEl_runs:
  assumes "i < length (nodeEls t)"
  shows "\<not> threw (set_nodeEl i f t)"
    and "nodeEls (state_of (set_nodeEl i f t)) = (nodeEls t)[i := f (nodeEls t ! i)]"
    and "linkEls (state_of (set_nodeEl i f t)) = linkEls t"
  using assms by (simp_all add: set_nodeEl_def write_el_def)

lemma highlight_link_runs:
  assumes "i < length (linkEls t)" and "i < length (hitLineEls t)"
  shows "\<not> threw (and_then (set_linkEl i f t) (set_hitLineEl i g))"
    and "linkEls (state_of (and_then (set_linkEl i f t) (set_hitLineEl i g)))
           = (linkEls t)[i := f (linkEls t ! i)]"
    and "nodeEls (state_of (and_then (set_linkEl i f t) (set_hitLineEl i g))) = nodeEls t"
  using assms by (simp_all add: set_linkEl_def set_hitLineEl_def write_el_def)

lemma highlight_nodes_of_node:
  fixes X :: node_desc and s :: app_state
  assumes "length (nodeEls s) = length (nodes s)"
  defines "r \<equiv> forEach_i (highlight_node_of_node (Some X) None) 0 (nodes s) s"
  shows "\<not> threw r" and "same_core s (state_of r)"
    and "\<forall>j < length (nodes s).
           c_opacity (nodeEls (state_of r) ! j) = Some (if nid (nodes s ! j) = nid X then 1 else 0.2) \<and>
           c_stroke_width (nodeEls (state_of r) ! j) = Some (if nid (nodes s ! j) = nid X then 2 else 1)"
proof -
  let ?I = "\<lambda>i t. same_core s t \<and>
      (\<forall>j < i. c_opacity (nodeEls t ! j) = Some (if nid (nodes s ! j) = nid X then 1 else 0.2) \<and>
               c_stroke_width (nodeEls t ! j) = Some (if nid (nodes s ! j) = nid X then 2 else 1))"
  have "\<not> threw r \<and> ?I (0 + length (nodes s)) (state_of r)"
    unfolding r_def
  proof (rule forEach_i_indexed [where I = ?I])
    show "?I 0 s" by simp
  next
    fix i t
    assume I: "?I i t" and i: "i < 0 + length (nodes s)"
    let ?n = "nodes s ! (i - 0)"
    let ?f = "\<lambda>e. e\<lparr>c_opacity := Some (if nid ?n = nid X then 1 else 0.2),
                       c_stroke_width := Some (if nid ?n = nid X then 2 else 1)\<rparr>"
    have step: "highlight_node_of_node (Some X) None i ?n t = set_nodeEl i ?f t"
      by (simp add: highlight_node_of_node_def node_emphasised_def Let_def)
    from I have len: "length (nodeEls t) = length (nodeEls s)"
      by (simp add: same_core_fields)
    with i assms(1) have il: "i < length (nodeEls t)" by simp
    note w = set_nodeEl_runs [OF il, of ?f]
    have core: "same_core s (state_of (set_nodeEl i ?f t))"
      using I same_core_set_el(1) by (blast intro: same_core_trans)
    have vals: "c_opacity (nodeEls (state_of (set_nodeEl i ?f t)) ! j) =
                  Some (if nid (nodes s ! j) = nid X then 1 else 0.2) \<and>
                c_stroke_width (nodeEls (state_of (set_nodeEl i ?f t)) ! j) =
                  Some (if nid (nodes s ! j) = nid X then 2 else 1)"
      if "j < Suc i" for j
    proof (cases "j = i")
      case True
      with il show ?thesis unfolding w(2) by simp
    next
      case False
      with that have "j < i" by simp
      with I False show ?thesis unfolding w(2) by simp
    qed
    show "\<not> threw (highlight_node_of_node (Some X) None i ?n t) \<and>
          ?I (Suc i) (state_of (highlight_node_of_node (Some X) None i ?n t))"
      unfolding step using w(1) core vals by blast
  qed
  then show "\<not> threw r" and "same_core s (state_of r)"
    and "\<forall>j < length (nodes s).
           c_opacity (nodeEls (state_of r) ! j) = Some (if nid (nodes s ! j) = nid X then 1 else 0.2) \<and>
           c_stroke_width (nodeEls (state_of r) ! j) = Some (if nid (nodes s ! j) = nid X then 2 else 1)"
    by simp_all
qed


lemma highlight_links_of_node:
  fixes X :: node_desc and s :: app_state
  assumes "pass_ok s"
    and "\<forall>l \<in> set (links s). link_emphasised (nodes s) (Some X) l = Some False"
  defines "r \<equiv> forEach_i (highlight_link_of_node (Some X)) 0 (links s) s"
  shows "\<not> threw r" and "same_core s (state_of r)" and "nodeEls (state_of r) = nodeEls s"
    and "\<forall>j < length (links s). l_opacity (linkEls (state_of r) ! j) = Some 0.05"
proof -
  let ?I = "\<lambda>i t. same_core s t \<and> nodeEls t = nodeEls s \<and>
      (\<forall>j < i. l_opacity (linkEls t ! j) = Some 0.05)"
  let ?f = "\<lambda>e. e\<lparr>l_opacity := Some (if False then 1 else 0.05), l_stroke_width := Some 1\<rparr>"
  let ?g = "\<lambda>e. e\<lparr>l_stroke_width := Some 18\<rparr>"
  have "\<not> threw r \<and> ?I (0 + length (links s)) (state_of r)"
    unfolding r_def
  proof (rule forEach_i_indexed [where I = ?I])
    show "?I 0 s" by simp
  next
    fix i t
    assume I: "?I i t" and i: "i < 0 + length (links s)"
    let ?l = "links s ! (i - 0)"
    from I have nodes: "nodes t = nodes s" by (simp add: same_core_fields)
    from i assms(2) have "link_emphasised (nodes s) (Some X) ?l = Some False" by simp
    then have step: "highlight_link_of_node (Some X) i ?l t
        = and_then (set_linkEl i ?f t) (set_hitLineEl i ?g)"
      by (simp add: highlight_link_of_node_def nodes)
    from I have "same_core s t" by simp
    note ft = same_core_fields [OF this]
    from pass_ok_lens [OF assms(1)] i
    have il: "i < length (linkEls t)" "i < length (hitLineEls t)"
      unfolding ft by simp_all
    note w = highlight_link_runs [OF il, of ?f ?g]
    have "same_core t (state_of (highlight_link_of_node (Some X) i ?l t))"
      by (rule same_core_highlight_steps)
    with I have core: "same_core s (state_of (and_then (set_linkEl i ?f t) (set_hitLineEl i ?g)))"
      unfolding step by (blast intro: same_core_trans)
    have vals: "l_opacity (linkEls (state_of (and_then (set_linkEl i ?f t) (set_hitLineEl i ?g))) ! j)
        = Some 0.05" if "j < Suc i" for j
    proof (cases "j = i")
      case True
      with il show ?thesis unfolding w(2) by simp
    next
      case False
      with that have "j < i" by simp
      with I False show ?thesis unfolding w(2) by simp
    qed
    from I w(3) have els: "nodeEls (state_of (and_then (set_linkEl i ?f t) (set_hitLineEl i ?g)))
        = nodeEls s" by simp
    show "\<not> threw (highlight_link_of_node (Some X) i ?l t) \<and>
          ?I (Suc i) (state_of (highlight_link_of_node (Some X) i ?l t))"
      unfolding step using w(1) core vals els by blast
  qed
  then show "\<not> threw r" and "same_core s (state_of r)" and "nodeEls (state_of r) = nodeEls s"
    and "\<forall>j < length (links s). l_opacity (linkEls (state_of r) ! j) = Some 0.05"
    by simp_all
qed

lemma nodeMap_fold_proto:
  "fold node_entry (enumerate k ds) m0 ''__proto__'' = m0 ''__proto__''"
  by (induction ds arbitrary: k m0) (simp_all add: node_entry_def put_def)

lemma adapt_end_Some:
  assumes "adapt_end (nodeMap ds) a = Some i"
  shows "i < length ds \<and> nid (ds ! i) = a"
proof -
  from assms have own: "nodeMap ds a = Some (Val i)"
    by (auto simp: adapt_end_def get_def split: option.splits slot.splits if_splits)
  with nodeMap_fold_proto [of 0 ds Map.empty] have a: "a \<noteq> ''__proto__''"
    by (auto simp: nodeMap_def)
  from own nodeMap_fold_other [of a ds 0 Map.empty] have "a \<in> set (map nid ds)"
    by (auto simp: nodeMap_def)
  from nodeMap_fold_member [OF this a, of 0 Map.empty] own show ?thesis
    by (auto simp: nodeMap_def)
qed

lemma buildNeighbourMap_entries:
  assumes "buildNeighbourMap ls = Inr m" and "l \<in> set ls"
  shows "m (source_id l) \<noteq> None \<and> m (target_id l) \<noteq> None"
proof -
  note c = buildNeighbourMap_completes [OF assms(1)]
  from add_links_plain [OF own_sets_empty c(1)] assms
  have "neighbour_of m (source_id l) (target_id l)" "neighbour_of m (target_id l) (source_id l)"
    by (auto simp: buildNeighbourMap_def)
  then show ?thesis
    by (auto simp: neighbour_of_def get_def split: option.splits slot.splits if_splits)
qed

lemma unlinked_node_links:
  assumes "pass_of d s" and "neighbourMap s (nid X) = None"
  shows "\<forall>l \<in> set (links s). link_emphasised (nodes s) (Some X) l = Some False"
proof
  fix l
  assume "l \<in> set (links s)"
  with assms(1) obtain dl where dl: "dl \<in> set (data_links d)"
    and l: "source l = adapt_end (nodeMap (data_nodes d)) (source_id dl)"
           "target l = adapt_end (nodeMap (data_nodes d)) (target_id dl)"
    by (auto simp: pass_of_def adapt_links_def)
  from assms(1) have "buildNeighbourMap (data_links d) = Inr (neighbourMap s)"
    by (simp add: pass_of_def)
  from buildNeighbourMap_entries [OF this dl] assms(2)
  have ne: "source_id dl \<noteq> nid X" "target_id dl \<noteq> nid X"
    by auto
  from assms(1) have ids: "map nid (nodes s) = map nid (data_nodes d)"
    by (simp add: pass_of_def)
  then have len: "length (nodes s) = length (data_nodes d)"
    by (metis length_map)
  have nid: "nid (nodes s ! i) = nid (data_nodes d ! i)" if "i < length (data_nodes d)" for i
    using that ids len by (metis nth_map)
  from assms(1) \<open>l \<in> set (links s)\<close> have "link_resolved (length (nodes s)) l"
    by (simp add: pass_of_def pass_ok_def list_all_iff)
  then obtain i j where ij: "source l = Some i" "i < length (nodes s)"
    "target l = Some j" "j < length (nodes s)"
    by (auto simp: link_resolved_def split: option.splits)
  from ij(1,3) l adapt_end_Some [of "data_nodes d" "source_id dl" i]
    adapt_end_Some [of "data_nodes d" "target_id dl" j]
  have "nid (data_nodes d ! i) = source_id dl" "nid (data_nodes d ! j) = target_id dl"
    by simp_all
  with ij len ne have "nid (nodes s ! i) \<noteq> nid X" "nid (nodes s ! j) \<noteq> nid X"
    by (simp_all add: nid)
  with ij show "link_emphasised (nodes s) (Some X) l = Some False"
    by (simp add: link_emphasised_def deref_def)
qed

lemma pass_ok_render_scene:
  assumes "dataset_ok d"
  shows "pass_ok (render_scene env d s)"
  using links_resolved_adapter [OF assms, of env]
  by (simp add: pass_ok_def render_scene_fields)
     (simp add: render_scene_def Let_def lens_def requestAnimationFrame_def adapt_links_def)

lemma pass_of_renderGraph:
  assumes "dataset_ok d"
  shows "pass_of d (state_of (renderGraph env d s))"
proof (rule dataset_ok_renders [OF assms, of env s])
  fix m
  assume m: "buildNeighbourMap (data_links d) = Inr m"
    and run: "renderGraph env d s = Done (render_scene env d (s\<lparr>neighbourMap := m\<rparr>))"
  from pass_ok_render_scene [OF assms] m show ?thesis
    by (simp add: run pass_of_def render_scene_fields nid_adapt_nodes)
qed

text \<open>
  C10, as the code has it. In a render pass of a dataset in which every end of every link is the
  id of a node, a node \<open>X\<close> is selected whose id has no entry in the neighbour index (no
  link names it) and is not the name of a property of \<open>Object.prototype\<close>. The selection
  raises no exception, \<open>X\<close> is the selected node, every circle of a node with the id of
  \<open>X\<close> gets opacity \<open>1\<close> and stroke width \<open>2\<close>, every circle of another node gets
  opacity \<open>0.2\<close> and stroke width \<open>1\<close>, and every link gets opacity \<open>0.05\<close>.
\<close>

theorem unlinked_node_highlight:
  assumes "pass_of d s" and "neighbourMap s (nid X) = None" and "\<not> inherited (nid X)"
  shows "\<not> threw (onNodeSelect (Some X) s)
    \<and> selectedNode (state_of (onNodeSelect (Some X) s)) = Some X
    \<and> (\<forall>i < length (nodes s).
          c_opacity (nodeEls (state_of (onNodeSelect (Some X) s)) ! i)
            = Some (if nid (nodes s ! i) = nid X then 1 else 0.2) \<and>
          c_stroke_width (nodeEls (state_of (onNodeSelect (Some X) s)) ! i)
            = Some (if nid (nodes s ! i) = nid X then 2 else 1))
    \<and> (\<forall>k < length (links s).
          l_opacity (linkEls (state_of (onNodeSelect (Some X) s)) ! k) = Some 0.05)"
proof -
  let ?s1 = "s\<lparr>selectedNode := Some X, selectedLink := None\<rparr>"
  from assms(1) have ok1: "pass_ok ?s1" and p1: "pass_of d ?s1"
    by (auto simp: pass_of_def pass_ok_def lens_def)
  have eqn: "nodes ?s1 = nodes s" by simp
  let ?r2 = "forEach_i (highlight_node_of_node (Some X) None) 0 (nodes s) ?s1"
  let ?s2 = "state_of ?r2"
  note hn = highlight_nodes_of_node [of ?s1 X, OF pass_ok_lens(1) [OF ok1], unfolded eqn]
  have n: "\<not> threw ?r2" "same_core ?s1 ?s2"
    "\<forall>j < length (nodes s).
       c_opacity (nodeEls ?s2 ! j) = Some (if nid (nodes s ! j) = nid X then 1 else 0.2) \<and>
       c_stroke_width (nodeEls ?s2 ! j) = Some (if nid (nodes s ! j) = nid X then 2 else 1)"
    by (rule hn)+
  from n(2) ok1 have ok2: "pass_ok ?s2" by (rule same_core_pass_ok)
  note f2 = same_core_fields [OF n(2)]
  from n(2) have sel2: "selectedNode ?s2 = Some X" "selectedLink ?s2 = None"
    using same_core_sel [OF n(2)] by (simp_all add: selection_def)
  from assms(2) have "neighbourMap ?s1 (nid X) = None" by simp
  from unlinked_node_links [OF p1 this]
  have un: "\<forall>l \<in> set (links ?s2). link_emphasised (nodes ?s2) (Some X) l = Some False"
    unfolding f2 .
  let ?r3 = "forEach_i (highlight_link_of_node (Some X)) 0 (links ?s2) ?s2"
  let ?s3 = "state_of ?r3"
  from ok2 un
  have l: "\<not> threw ?r3" "same_core ?s2 ?s3" "nodeEls ?s3 = nodeEls ?s2"
    "\<forall>j < length (links ?s2). l_opacity (linkEls ?s3 ! j) = Some 0.05"
    by (rule highlight_links_of_node)+
  have h: "highlightSelection ?s1 = Done ?s3"
  proof -
    from assms(2,3) have "get (neighbourMap s) (nid X) = None" by (simp add: get_def)
    with assms(1) have "highlightSelection ?s1 = and_then ?r2
        (\<lambda>s'. forEach_i (highlight_link_of_node (selectedNode s')) 0 (links s') s')"
      by (simp add: highlightSelection_def pass_of_def)
    also have "\<dots> = ?r3"
      by (subst not_threw_Done [OF n(1)]) (simp only: and_then.simps sel2)
    also have "\<dots> = Done ?s3" using l(1) by (rule not_threw_Done)
    finally show ?thesis .
  qed
  from l(2) have sel3: "selectedNode ?s3 = Some X" "selectedLink ?s3 = None"
    using same_core_sel [OF l(2)] sel2 by (simp_all add: selection_def)
  have run: "onNodeSelect (Some X) s = Done (?s3\<lparr>details_panel := NodePanel\<rparr>)"
    by (simp add: onNodeSelect_def h updateDetailsPanel_def sel3)
  show ?thesis
    unfolding run using sel3 l(3,4) n(3) f2 by simp
qed

theorem unlinked_node_highlight_witness:
  "pass_of example_data example_state
   \<and> neighbourMap example_state ''person1'' = None
   \<and> \<not> inherited ''person1''
   \<and> c_opacity (nodeEls (state_of (onNodeSelect
         (Some \<lparr>nid = ''person1'', category = ''person'', nsize = None\<rparr>) example_state)) ! 2) = Some 1
   \<and> c_stroke_width (nodeEls (state_of (onNodeSelect
         (Some \<lparr>nid = ''person1'', category = ''person'', nsize = None\<rparr>) example_state)) ! 2) = Some 2
   \<and> c_opacity (nodeEls (state_of (onNodeSelect
         (Some \<lparr>nid = ''person1'', category = ''person'', nsize = None\<rparr>) example_state)) ! 0) = Some 0.2
   \<and> c_stroke_width (nodeEls (state_of (onNodeSelect
         (Some \<lparr>nid = ''person1'', category = ''person'', nsize = None\<rparr>) example_state)) ! 0) = Some 1
   \<and> l_opacity (linkEls (state_of (onNodeSelect
         (Some \<lparr>nid = ''person1'', category = ''person'', nsize = None\<rparr>) example_state)) ! 0) = Some 0.05"
proof -
  have d: "dataset_ok example_data"
    by (simp add: dataset_ok_def plain_links_def inherited_def proto_keys_def example_data_def)
  have p: "pass_of example_data example_state"
    unfolding example_state_def using d by (rule pass_of_renderGraph)
  have nm: "neighbourMap example_state ''person1'' = None"
    by (simp add: example_state_eq render_scene_fields)
  have pl: "\<not> inherited ''person1''"
    by (simp add: inherited_def proto_keys_def)
  show ?thesis
    using unlinked_node_highlight [OF p, of "\<lparr>nid = ''person1'', category = ''person'', nsize = None\<rparr>"] nm pl
    by (simp add: p example_nodes example_links)
qed

text \<open>
  The claim as the specification states it fails in two ways. A node with the id
  \<open>constructor\<close> and no link has no entry in the neighbour index, but
  \<open>neighbourMap['constructor']\<close> reads the function inherited from \<open>Object.prototype\<close>,
  which is truthy, and \<open>neighbours.has\<close> raises a \<open>TypeError\<close> at the next node. And when
  another link of the pass has an end that is no node, the loop over the links raises a
  \<open>TypeError\<close> at that link.
\<close>

lemma constructor_renders:
  "renderGraph example_env constructor_data initial_state =
     Done (render_scene example_env constructor_data initial_state)"
  by (simp add: renderGraph_def buildNeighbourMap_def constructor_data_def initial_state_def)

lemma lonely_renders:
  "renderGraph example_env lonely_data initial_state =
     Done (render_scene example_env lonely_data
       (initial_state\<lparr>neighbourMap := [''a'' \<mapsto> Val {''missing''}, ''missing'' \<mapsto> Val {''a''}]\<rparr>))"
  by (simp add: renderGraph_def buildNeighbourMap_def lonely_data_def add_link_def set_add_def
      ensure_set_def get_def put_def inherited_def proto_keys_def)

lemma threw_forEach_i_Cons:
  "threw (f k a s) \<Longrightarrow> threw (forEach_i f k (a # xs) s)"
  by (cases "f k a s") simp_all

lemma threw_forEach_i_next:
  "f k a s = Done s' \<Longrightarrow> threw (forEach_i f (Suc k) xs s') \<Longrightarrow> threw (forEach_i f k (a # xs) s)"
  by simp

theorem unlinked_node_highlight_raises:
  "neighbourMap (state_of (renderGraph example_env constructor_data initial_state)) ''constructor'' = None
   \<and> threw (onNodeSelect (Some \<lparr>nid = ''constructor'', category = ''startup'', nsize = Some 10\<rparr>)
        (state_of (renderGraph example_env constructor_data initial_state)))
   \<and> neighbourMap (state_of (renderGraph example_env lonely_data initial_state)) ''x'' = None
   \<and> threw (onNodeSelect (Some \<lparr>nid = ''x'', category = ''person'', nsize = None\<rparr>)
        (state_of (renderGraph example_env lonely_data initial_state)))"
proof -
  let ?c = "state_of (renderGraph example_env constructor_data initial_state)"
  let ?X = "\<lparr>nid = ''constructor'', category = ''startup'', nsize = Some 10\<rparr>"
  have c: "rendered ?c" "neighbourMap ?c = Map.empty" "map nid (nodes ?c) = [''constructor'', ''b'']"
    "length (nodeEls ?c) = 2"
    by (simp_all add: constructor_renders render_scene_fields nid_adapt_nodes length_adapt_nodes)
       (simp_all add: constructor_data_def initial_state_def)
  then obtain n0 n1 where nodes: "nodes ?c = [n0, n1]" "nid n0 = ''constructor''" "nid n1 = ''b''"
    by (cases "nodes ?c"; cases "tl (nodes ?c)") auto
  let ?c1 = "?c\<lparr>selectedNode := Some ?X, selectedLink := None\<rparr>"
  have "threw (forEach_i (highlight_node_of_node (Some ?X) (Some Inherited)) 0 [n0, n1] ?c1)"
  proof (rule threw_forEach_i_next)
    show "highlight_node_of_node (Some ?X) (Some Inherited) 0 n0 ?c1 =
        Done (state_of (highlight_node_of_node (Some ?X) (Some Inherited) 0 n0 ?c1))"
      using c(4) nodes(2)
      by (simp add: highlight_node_of_node_def node_emphasised_def set_nodeEl_def write_el_def)
    show "threw (forEach_i (highlight_node_of_node (Some ?X) (Some Inherited)) (Suc 0) [n1]
        (state_of (highlight_node_of_node (Some ?X) (Some Inherited) 0 n0 ?c1)))"
      using nodes(3)
      by (intro threw_forEach_i_Cons) (simp add: highlight_node_of_node_def node_emphasised_def)
  qed
  moreover have "highlightSelection ?c1 =
      and_then (forEach_i (highlight_node_of_node (Some ?X) (Some Inherited)) 0 [n0, n1] ?c1)
        (\<lambda>s'. forEach_i (highlight_link_of_node (selectedNode s')) 0 (links s') s')"
    using c(1,2) nodes(1)
    by (simp add: highlightSelection_def get_def Let_def del: forEach_i.simps)
  ultimately have "threw (highlightSelection ?c1)"
    by (simp only: threw_and_then)
  then have 1: "threw (onNodeSelect (Some ?X) ?c)"
    unfolding onNodeSelect_def by (rule threw_and_then)
  let ?l = "state_of (renderGraph example_env lonely_data initial_state)"
  let ?Y = "\<lparr>nid = ''x'', category = ''person'', nsize = None\<rparr>"
  have l: "rendered ?l" "neighbourMap ?l ''x'' = None" "map nid (nodes ?l) = [''a'', ''x'']"
    "length (nodeEls ?l) = 2"
    "links ?l = [\<lparr>source = Some 0, target = None, stype = ''support'', sdescription = ''none''\<rparr>]"
    by (simp_all add: lonely_renders render_scene_fields nid_adapt_nodes length_adapt_nodes)
       (simp_all add: lonely_data_def adapt_links_def nodeMap_def node_entry_def adapt_end_def
         get_def put_def inherited_def proto_keys_def enumerate_eq_zip upt_rec)
  let ?l1 = "?l\<lparr>selectedNode := Some ?Y, selectedLink := None\<rparr>"
  let ?r = "forEach_i (highlight_node_of_node (Some ?Y) None) 0 (nodes ?l1) ?l1"
  have "length (nodes ?l) = length [''a'', ''x'']"
    unfolding l(3) [symmetric] by simp
  with l(4) have len: "length (nodeEls ?l1) = length (nodes ?l1)"
    by simp
  note hn = highlight_nodes_of_node [of ?l1 ?Y, OF len]
  note f = same_core_fields [OF hn(2)]
  have sel: "selectedNode (state_of ?r) = Some ?Y"
    using same_core_sel [OF hn(2)] by (simp add: selection_def)
  let ?dl = "\<lparr>source = Some 0, target = None, stype = ''support'', sdescription = ''none''\<rparr>"
  from l(3) obtain n0 n1 where "nodes ?l = [n0, n1]" "nid n0 = ''a''"
    by (cases "nodes ?l"; cases "tl (nodes ?l)") auto
  with f(1) have nodes_r: "nodes (state_of ?r) = [n0, n1]" "nid n0 = ''a''" by simp_all
  from f(2) l(5) have links_r: "links (state_of ?r) = [?dl]" by simp
  have "link_emphasised (nodes (state_of ?r)) (Some ?Y) ?dl = None"
    unfolding nodes_r(1) using nodes_r(2) by (simp add: link_emphasised_def deref_def)
  then have "threw (highlight_link_of_node (Some ?Y) 0 ?dl (state_of ?r))"
    by (simp add: highlight_link_of_node_def)
  then have "threw (forEach_i (highlight_link_of_node (Some ?Y)) 0 (links (state_of ?r)) (state_of ?r))"
    unfolding links_r by (rule threw_forEach_i_Cons)
  then have "threw (and_then ?r (\<lambda>s'. forEach_i (highlight_link_of_node (selectedNode s')) 0 (links s') s'))"
    using hn(1) sel by (subst not_threw_Done [OF hn(1)]) simp
  then have "threw (highlightSelection ?l1)"
    using l(1,2) by (simp add: highlightSelection_def get_def inherited_def proto_keys_def)
  then have 2: "threw (onNodeSelect (Some ?Y) ?l)"
    unfolding onNodeSelect_def by (rule threw_and_then)
  from c(2) 1 l(2) 2 show ?thesis by simp
qed

subsection \<open>Click on the background\<close>

text \<open>
  \<open>distToSegment\<close> is the distance from the point to the segment: it is the
  distance to a point of the segment, and no point of the segment is nearer.
\<close>

lemma clamp_least:
  fixes D W t0 t u :: real
  assumes D: "0 < D" and t0: "t0 = W / D" and u: "u = max 0 (min 1 t0)"
    and t: "0 \<le> t" "t \<le> 1"
  shows "u * u * D - 2 * u * W \<le> t * t * D - 2 * t * W"
proof -
  from D t0 have W: "W = t0 * D" by simp
  have eq: "(t * t * D - 2 * t * W) - (u * u * D - 2 * u * W) = D * ((t - u) * (t + u - 2 * t0))"
    unfolding W by (simp add: algebra_simps)
  have "0 \<le> (t - u) * (t + u - 2 * t0)"
  proof (cases "t0 \<le> 0")
    case True
    with u have "u = 0" by simp
    with True t show ?thesis by (simp add: mult_nonneg_nonneg)
  next
    case False
    show ?thesis
    proof (cases "t0 \<le> 1")
      case True
      with False u have "u = t0" by simp
      then have "(t - u) * (t + u - 2 * t0) = (t - t0) * (t - t0)" by simp
      then show ?thesis by simp
    next
      case False
      with u have "u = 1" by simp
      with False t have "t - u \<le> 0" "t + u - 2 * t0 \<le> 0" by simp_all
      then show ?thesis by (rule mult_nonpos_nonpos)
    qed
  qed
  with D have "0 \<le> D * ((t - u) * (t + u - 2 * t0))" by simp
  with eq show ?thesis by simp
qed

lemma distToSegment_least:
  assumes "0 \<le> t" and "t \<le> 1"
  shows "distToSegment px py ax ay bx by
         \<le> hypot (px - (ax + t * (bx - ax))) (py - (ay + t * (by - ay)))"
proof (cases "bx - ax = 0 \<and> by - ay = 0")
  case True
  then show ?thesis by (simp add: distToSegment_def)
next
  case False
  define dx where "dx = bx - ax"
  define dy where "dy = by - ay"
  define wx where "wx = px - ax"
  define wy where "wy = py - ay"
  define D where "D = dx * dx + dy * dy"
  define W where "W = wx * dx + wy * dy"
  define u where "u = max 0 (min 1 (W / D))"
  from False have "dx \<noteq> 0 \<or> dy \<noteq> 0" by (simp add: dx_def dy_def)
  then have D: "0 < D" unfolding D_def by (auto simp: sum_squares_gt_zero_iff)
  have d: "distToSegment px py ax ay bx by = hypot (px - (ax + u * dx)) (py - (ay + u * dy))"
    using False
    by (simp add: distToSegment_def Let_def u_def W_def D_def dx_def dy_def wx_def wy_def)
  have sq: "(px - (ax + r * dx)) * (px - (ax + r * dx)) + (py - (ay + r * dy)) * (py - (ay + r * dy))
      = (wx * wx + wy * wy) + (r * r * D - 2 * r * W)" for r
    by (simp add: wx_def wy_def D_def W_def algebra_simps)
  from clamp_least [OF D refl u_def assms]
  have "(wx * wx + wy * wy) + (u * u * D - 2 * u * W) \<le> (wx * wx + wy * wy) + (t * t * D - 2 * t * W)"
    by simp
  then show ?thesis
    unfolding d hypot_def sq dx_def [symmetric] dy_def [symmetric] by simp
qed

lemma distToSegment_attained:
  "\<exists>t. 0 \<le> t \<and> t \<le> 1 \<and>
       distToSegment px py ax ay bx by
         = hypot (px - (ax + t * (bx - ax))) (py - (ay + t * (by - ay)))"
proof (cases "bx - ax = 0 \<and> by - ay = 0")
  case True
  then show ?thesis by (intro exI [of _ 0]) (simp add: distToSegment_def)
next
  case False
  let ?u = "max 0 (min 1 (((px - ax) * (bx - ax) + (py - ay) * (by - ay))
                          / ((bx - ax) * (bx - ax) + (by - ay) * (by - ay))))"
  have "0 \<le> ?u" "?u \<le> 1" by simp_all
  moreover from False have "distToSegment px py ax ay bx by
      = hypot (px - (ax + ?u * (bx - ax))) (py - (ay + ?u * (by - ay)))"
    by (simp add: distToSegment_def Let_def)
  ultimately show ?thesis by blast
qed

lemma nearest_step_resolved:
  assumes "link_resolved (length ns) l"
  shows "nearest_step ns p i l st =
     Done (if (case snd st of None \<Rightarrow> True | Some m \<Rightarrow> link_distance ns p l < m)
           then (Some i, Some (link_distance ns p l)) else st)"
  using assms
  by (auto simp: nearest_step_def link_distance_def link_resolved_def deref_def Let_def
      split: option.splits)

lemma nearest_so_far_step:
  assumes "nearest_so_far ns p ls i st" and "i < length ls"
  shows "nearest_so_far ns p ls (Suc i)
           (if (case snd st of None \<Rightarrow> True | Some m \<Rightarrow> link_distance ns p (ls ! i) < m)
            then (Some i, Some (link_distance ns p (ls ! i))) else st)"
proof (cases "fst st")
  case None
  with assms show ?thesis by (simp add: nearest_so_far_def)
next
  case (Some m)
  let ?D = "\<lambda>k. link_distance ns p (ls ! k)"
  from Some assms(1) have m: "m < i" "snd st = Some (?D m)" "\<forall>j < i. ?D m \<le> ?D j"
    "\<forall>j < m. ?D m < ?D j"
    by (simp_all add: nearest_so_far_def)
  show ?thesis
  proof (cases "?D i < ?D m")
    case True
    have "?D i \<le> ?D j" if "j < Suc i" for j
    proof (cases "j = i")
      case False
      with that have "j < i" by simp
      with m(3) True show ?thesis by force
    qed simp
    moreover have "?D i < ?D j" if "j < i" for j
      using m(3) True that by force
    ultimately show ?thesis
      using True m(2) by (simp add: nearest_so_far_def)
  next
    case False
    have "?D m \<le> ?D j" if "j < Suc i" for j
    proof (cases "j = i")
      case True
      with False show ?thesis by simp
    next
      case False
      with that have "j < i" by simp
      with m(3) show ?thesis by simp
    qed
    with False m Some show ?thesis
      by (simp add: nearest_so_far_def)
  qed
qed

lemma nearest_loop:
  assumes "list_all (link_resolved (length ns)) ls"
  shows "\<not> threw (forEach_i (nearest_step ns p) 0 ls (None, None)) \<and>
         nearest_so_far ns p ls (length ls) (state_of (forEach_i (nearest_step ns p) 0 ls (None, None)))"
proof -
  have "\<not> threw (forEach_i (nearest_step ns p) 0 ls (None, None)) \<and>
        nearest_so_far ns p ls (0 + length ls)
          (state_of (forEach_i (nearest_step ns p) 0 ls (None, None)))"
  proof (rule forEach_i_indexed [where I = "nearest_so_far ns p ls"])
    show "nearest_so_far ns p ls 0 (None, None)" by (simp add: nearest_so_far_def)
  next
    fix i t
    assume t: "nearest_so_far ns p ls i t" and i: "i < 0 + length ls"
    with assms have r: "link_resolved (length ns) (ls ! i)"
      by (simp add: list_all_length)
    from i have i': "i < length ls" by simp
    show "\<not> threw (nearest_step ns p i (ls ! (i - 0)) t) \<and>
          nearest_so_far ns p ls (Suc i) (state_of (nearest_step ns p i (ls ! (i - 0)) t))"
      unfolding diff_zero nearest_step_resolved [OF r] threw.simps state_of.simps
      using nearest_so_far_step [OF t i'] by simp
  qed
  then show ?thesis by simp
qed


lemma hypot_zero: "hypot 0 b = \<bar>b\<bar>"
  by (simp add: hypot_def)

lemma euclid_segment_point:
  "euclid p (segment_point a b t) =
     hypot (fst p - (nx a + t * (nx b - nx a))) (snd p - (ny a + t * (ny b - ny a)))"
  by (simp add: euclid_def segment_point_def hypot_def power2_eq_square)

text \<open>What \<open>distToSegment\<close> returns is the distance from the point to the segment.\<close>

lemma distToSegment_segment_distance:
  "segment_distance p a b (distToSegment (fst p) (snd p) (nx a) (ny a) (nx b) (ny b))"
  unfolding segment_distance_def euclid_segment_point
  using distToSegment_least [of _ "fst p" "snd p" "nx a" "ny a" "nx b" "ny b"]
    distToSegment_attained [of "fst p" "snd p" "nx a" "ny a" "nx b" "ny b"]
  by blast

lemma link_distance_segment_distance:
  assumes "link_resolved (length ns) l"
  shows "\<exists>i j. source l = Some i \<and> target l = Some j \<and> i < length ns \<and> j < length ns \<and>
           segment_distance p (ns ! i) (ns ! j) (link_distance ns p l)"
proof -
  from assms obtain i j where ij: "source l = Some i" "i < length ns" "target l = Some j" "j < length ns"
    by (auto simp: link_resolved_def split: option.splits)
  then have "link_distance ns p l =
      distToSegment (fst p) (snd p) (nx (ns ! i)) (ny (ns ! i)) (nx (ns ! j)) (ny (ns ! j))"
    by (simp add: link_distance_def deref_def)
  with ij distToSegment_segment_distance [of p "ns ! i" "ns ! j"] show ?thesis by simp
qed

lemma pass_ok_example: "pass_ok example_state"
proof -
  have "dataset_ok example_data"
    by (simp add: dataset_ok_def plain_links_def inherited_def proto_keys_def example_data_def)
  then have "pass_of example_data example_state"
    unfolding example_state_def by (rule pass_of_renderGraph)
  then show ?thesis by (simp add: pass_of_def)
qed

lemma example_distance:
  "link_distance (nodes example_state) (200, y) (links example_state ! 0) = \<bar>y - 300\<bar>"
  by (simp add: example_nodes example_links link_distance_def deref_def distToSegment_def Let_def
      hypot_zero)

lemma example_links_length: "length (links example_state) = 1"
  by (simp add: example_links)

lemma example_link_ref:
  "link_ref_of example_state 0 =
     \<lparr>lr_pass = 1, lr_index = 0, lr_source = Some ''startup1'', lr_target = Some ''investor1''\<rparr>"
  by (simp add: link_ref_of_def example_nodes example_links end_id_def deref_def)
     (simp add: example_state_eq render_scene_fields initial_state_def)

text \<open>
  C2, as the code has it. A click that reaches the svg element, in a pass in which both ends of
  every link are nodes, and with a positive scale: the click is mapped to the point
  \<open>((cx - left - offsetX) / s, (cy - top - offsetY) / s)\<close> of the simulation; the
  distance the handler computes for a link is the distance from that point to the
  segment between the two ends of the link; when every link is farther from the point
  than \<open>25 / s\<close> the selection is cleared; when some link is within \<open>25 / s\<close>, the
  link that is selected is the first link at the least distance, and that distance is
  at most \<open>25 / s\<close>.
\<close>

theorem click_selects_nearest_link:
  assumes "pass_ok s" and "0 < scale s"
  shows "to_sim e s =
           ((clientX e - rect_left e - offsetX s) / scale s,
            (clientY e - rect_top e - offsetY s) / scale s)
    \<and> (\<forall>k < length (links s).
          \<exists>i j. source (links s ! k) = Some i \<and> target (links s ! k) = Some j \<and>
                i < length (nodes s) \<and> j < length (nodes s) \<and>
                segment_distance (to_sim e s) (nodes s ! i) (nodes s ! j)
                  (link_distance (nodes s) (to_sim e s) (links s ! k)))
    \<and> ((\<forall>k < length (links s). 25 / scale s < link_distance (nodes s) (to_sim e s) (links s ! k)) \<longrightarrow>
         svg_click e s = onNodeSelect None s \<and>
         selection (state_of (svg_click e s)) = (None, None))
    \<and> ((\<exists>k < length (links s). link_distance (nodes s) (to_sim e s) (links s ! k) \<le> 25 / scale s) \<longrightarrow>
         (\<exists>m < length (links s).
            (\<forall>j < length (links s). link_distance (nodes s) (to_sim e s) (links s ! m)
                                      \<le> link_distance (nodes s) (to_sim e s) (links s ! j)) \<and>
            (\<forall>j < m. link_distance (nodes s) (to_sim e s) (links s ! m)
                       < link_distance (nodes s) (to_sim e s) (links s ! j)) \<and>
            link_distance (nodes s) (to_sim e s) (links s ! m) \<le> 25 / scale s \<and>
            svg_click e s = onLinkSelect (link_ref_of s m) s \<and>
            selection (state_of (svg_click e s)) = (None, Some (link_ref_of s m))))"
proof -
  let ?D = "\<lambda>k. link_distance (nodes s) (to_sim e s) (links s ! k)"
  let ?loop = "forEach_i (nearest_step (nodes s) (to_sim e s)) 0 (links s) (None, None)"
  obtain nearest minDist where st: "state_of ?loop = (nearest, minDist)"
    by (cases "state_of ?loop")
  from assms(1) have res: "list_all (link_resolved (length (nodes s))) (links s)"
    by (simp add: pass_ok_def)
  from nearest_loop [OF this, of "to_sim e s"]
  have run: "?loop = Done (nearest, minDist)"
    and near: "nearest_so_far (nodes s) (to_sim e s) (links s) (length (links s)) (nearest, minDist)"
    using not_threw_Done [of ?loop] by (simp_all add: st)
  have sim: "to_sim e s =
           ((clientX e - rect_left e - offsetX s) / scale s,
            (clientY e - rect_top e - offsetY s) / scale s)"
    by (simp add: to_sim_def)
  have geo: "\<forall>k < length (links s).
          \<exists>i j. source (links s ! k) = Some i \<and> target (links s ! k) = Some j \<and>
                i < length (nodes s) \<and> j < length (nodes s) \<and>
                segment_distance (to_sim e s) (nodes s ! i) (nodes s ! j) (?D k)"
  proof (intro allI impI)
    fix k
    assume "k < length (links s)"
    with res have "link_resolved (length (nodes s)) (links s ! k)"
      by (simp add: list_all_length)
    then show "\<exists>i j. source (links s ! k) = Some i \<and> target (links s ! k) = Some j \<and>
                i < length (nodes s) \<and> j < length (nodes s) \<and>
                segment_distance (to_sim e s) (nodes s ! i) (nodes s ! j) (?D k)"
      by (rule link_distance_segment_distance)
  qed
  show ?thesis
  proof (cases nearest)
    case None
    with near have "length (links s) = 0" by (simp add: nearest_so_far_def)
    moreover from None have "svg_click e s = onNodeSelect None s"
      by (simp add: svg_click_def run)
    ultimately show ?thesis using sim by (simp add: sel_onNodeSelect)
  next
    case (Some m)
    with near have m: "m < length (links s)" "minDist = Some (?D m)"
      "\<forall>j < length (links s). ?D m \<le> ?D j" "\<forall>j < m. ?D m < ?D j"
      by (simp_all add: nearest_so_far_def)
    have click: "svg_click e s =
        (if ?D m \<le> 25 / scale s then onLinkSelect (link_ref_of s m) s else onNodeSelect None s)"
      by (simp add: svg_click_def run Some m(2))
    have miss: "svg_click e s = onNodeSelect None s \<and>
         selection (state_of (svg_click e s)) = (None, None)"
      if "\<forall>k < length (links s). 25 / scale s < ?D k"
    proof -
      from that m(1) have "\<not> ?D m \<le> 25 / scale s" by force
      with click show ?thesis by (simp add: sel_onNodeSelect)
    qed
    have hit: "\<exists>m < length (links s).
            (\<forall>j < length (links s). ?D m \<le> ?D j) \<and> (\<forall>j < m. ?D m < ?D j) \<and>
            ?D m \<le> 25 / scale s \<and>
            svg_click e s = onLinkSelect (link_ref_of s m) s \<and>
            selection (state_of (svg_click e s)) = (None, Some (link_ref_of s m))"
      if "\<exists>k < length (links s). ?D k \<le> 25 / scale s"
    proof -
      from that obtain k where k: "k < length (links s)" "?D k \<le> 25 / scale s" by blast
      from m(3) k(1) have "?D m \<le> ?D k" by blast
      with k(2) have le: "?D m \<le> 25 / scale s" by simp
      with click have "svg_click e s = onLinkSelect (link_ref_of s m) s" by simp
      with m le show ?thesis by (auto simp: sel_onLinkSelect)
    qed
    from sim geo miss hit show ?thesis by blast
  qed
qed

text \<open>
  At scale \<open>1\<close>, with the link from \<open>(100, 300)\<close> to \<open>(300, 300)\<close>: a click at
  \<open>(200, 324)\<close>, \<open>24\<close> units from the link, selects it.
\<close>

theorem click_selects_nearest_link_witness:
  "pass_ok example_state \<and> 0 < scale example_state
   \<and> link_distance (nodes example_state)
        (to_sim \<lparr>clientX = 200, clientY = 324, rect_left = 0, rect_top = 0\<rparr> example_state)
        (links example_state ! 0) = 24
   \<and> selection (state_of (svg_click \<lparr>clientX = 200, clientY = 324, rect_left = 0, rect_top = 0\<rparr>
        example_state)) =
       (None, Some \<lparr>lr_pass = 1, lr_index = 0, lr_source = Some ''startup1'',
                    lr_target = Some ''investor1''\<rparr>)"
proof -
  have sim: "to_sim \<lparr>clientX = 200, clientY = 324, rect_left = 0, rect_top = 0\<rparr> example_state
      = (200, 324)"
    by (simp add: to_sim_def example_view)
  show ?thesis
    using click_selects_nearest_link [OF pass_ok_example, of
        "\<lparr>clientX = 200, clientY = 324, rect_left = 0, rect_top = 0\<rparr>"]
    unfolding sim
    by (auto simp: pass_ok_example example_view example_distance example_links_length
        example_link_ref)
qed

text \<open>A click at \<open>(200, 326)\<close>, \<open>26\<close> units from the link, selects nothing.\<close>

lemma click_26_away_selects_nothing:
  "link_distance (nodes example_state)
        (to_sim \<lparr>clientX = 200, clientY = 326, rect_left = 0, rect_top = 0\<rparr> example_state)
        (links example_state ! 0) = 26
   \<and> selection (state_of (svg_click \<lparr>clientX = 200, clientY = 326, rect_left = 0, rect_top = 0\<rparr>
        example_state)) = (None, None)"
proof -
  have sim: "to_sim \<lparr>clientX = 200, clientY = 326, rect_left = 0, rect_top = 0\<rparr> example_state
      = (200, 326)"
    by (simp add: to_sim_def example_view)
  have run: "forEach_i (nearest_step (nodes example_state) (200, 326)) 0 (links example_state) (None, None)
      = Done (Some 0, Some 26)"
    using example_distance [of 326]
    by (simp add: example_links example_nodes nearest_step_def deref_def link_distance_def)
  have "svg_click \<lparr>clientX = 200, clientY = 326, rect_left = 0, rect_top = 0\<rparr> example_state
      = onNodeSelect None example_state"
    by (simp add: svg_click_def sim run example_view)
  then show ?thesis
    by (simp add: sim example_distance sel_onNodeSelect)
qed

text \<open>
  The claim as the specification states it fails in a pass with a link to a node that
  does not exist. After one node \<open>a\<close> and one link from \<open>a\<close> to \<open>missing\<close> are rendered
  and the node \<open>a\<close> is selected, a click on the background raises a \<open>TypeError\<close> when the
  handler reads \<open>l.target.x\<close>: no link is selected and the selection is not cleared.
\<close>

lemma links_nodes_select:
  "links (state_of (and_then (highlightSelection s) updateDetailsPanel)) = links s \<and>
   nodes (state_of (and_then (highlightSelection s) updateDetailsPanel)) = nodes s"
proof (rule and_then_state_of_inv [where P = "\<lambda>t. links t = links s \<and> nodes t = nodes s"])
  show "links (state_of (highlightSelection s)) = links s \<and>
        nodes (state_of (highlightSelection s)) = nodes s"
    using same_core_fields(1,2) [OF same_core_highlightSelection [of s]] by simp
  show "links (state_of (updateDetailsPanel t)) = links s \<and>
        nodes (state_of (updateDetailsPanel t)) = nodes s"
    if "links t = links s \<and> nodes t = nodes s" for t
    using that by (simp add: updateDetailsPanel_def split: option.splits)
qed

theorem click_on_dangling_pass_raises:
  "selection (state_of (onNodeSelect (Some \<lparr>nid = ''a'', category = ''startup'', nsize = Some 10\<rparr>)
       (state_of (renderGraph example_env dangling_data initial_state)))) =
     (Some \<lparr>nid = ''a'', category = ''startup'', nsize = Some 10\<rparr>, None)
   \<and> threw (svg_click \<lparr>clientX = 200, clientY = 300, rect_left = 0, rect_top = 0\<rparr>
       (state_of (onNodeSelect (Some \<lparr>nid = ''a'', category = ''startup'', nsize = Some 10\<rparr>)
          (state_of (renderGraph example_env dangling_data initial_state)))))
   \<and> selection (state_of (svg_click \<lparr>clientX = 200, clientY = 300, rect_left = 0, rect_top = 0\<rparr>
       (state_of (onNodeSelect (Some \<lparr>nid = ''a'', category = ''startup'', nsize = Some 10\<rparr>)
          (state_of (renderGraph example_env dangling_data initial_state)))))) =
     (Some \<lparr>nid = ''a'', category = ''startup'', nsize = Some 10\<rparr>, None)"
proof -
  let ?A = "\<lparr>nid = ''a'', category = ''startup'', nsize = Some 10\<rparr>"
  let ?s0 = "state_of (renderGraph example_env dangling_data initial_state)"
  let ?s1 = "state_of (onNodeSelect (Some ?A) ?s0)"
  let ?e = "\<lparr>clientX = 200, clientY = 300, rect_left = 0, rect_top = 0\<rparr>"
  have sel: "selection ?s1 = (Some ?A, None)" by (rule sel_onNodeSelect)
  have "links ?s1 = links ?s0"
    unfolding onNodeSelect_def using links_nodes_select by simp
  then have links: "links ?s1 =
      [\<lparr>source = Some 0, target = None, stype = ''support'', sdescription = ''none''\<rparr>]"
    by (simp only: dangling_links)
  have "threw (forEach_i (nearest_step (nodes ?s1) (to_sim ?e ?s1)) 0 (links ?s1) (None, None))"
    unfolding links
    by (rule threw_forEach_i_Cons) (simp add: nearest_step_def deref_def split: option.splits)
  then have click: "\<exists>err. svg_click ?e ?s1 = Threw err ?s1"
    by (cases "forEach_i (nearest_step (nodes ?s1) (to_sim ?e ?s1)) 0 (links ?s1) (None, None)")
       (simp_all add: svg_click_def)
  then have "threw (svg_click ?e ?s1)" "state_of (svg_click ?e ?s1) = ?s1" by auto
  with sel show ?thesis by simp
qed

subsection \<open>What holds in every reachable state\<close>

text \<open>
  Two facts behind C3 and C5, for every state the engine can reach from the start by
  any events: the zoom factor stays in \<open>[0.5, 4]\<close>, and no request of a frame is
  pending but the one \<open>simulationId\<close> holds.
\<close>

lemma handle_Render:
  "handle (Render env d) s = s \<or>
   (\<exists>m. handle (Render env d) s = render_scene env d (s\<lparr>neighbourMap := m\<rparr>))"
  by (rule renderGraph_cases [of env d s]) auto

lemma same_core_around: "same_core s t \<Longrightarrow> around t = around s"
  by (simp add: same_core_def core_def around_def)

lemma around_select:
  "around (state_of (and_then (highlightSelection s) updateDetailsPanel)) = around s"
proof (rule and_then_state_of_inv [where P = "\<lambda>t. around t = around s"])
  show "around (state_of (highlightSelection s)) = around s"
    by (rule same_core_around) (rule same_core_highlightSelection)
  show "around (state_of (updateDetailsPanel t)) = around s" if "around t = around s" for t
    using that by (simp add: updateDetailsPanel_def around_def split: option.splits)
qed

lemma around_onNodeSelect: "around (state_of (onNodeSelect n s)) = around s"
  unfolding onNodeSelect_def by (subst around_select) (simp add: around_def)

lemma around_onLinkSelect: "around (state_of (onLinkSelect k s)) = around s"
  unfolding onLinkSelect_def by (subst around_select) (simp add: around_def)

lemma around_close_link_panel: "around (state_of (close_link_panel s)) = around s"
  unfolding close_link_panel_def by (subst around_select) (simp add: around_def)

lemma around_svg_click: "around (state_of (svg_click e s)) = around s"
  by (auto simp: svg_click_def Let_def around_onNodeSelect around_onLinkSelect
      split: outcome.splits option.splits prod.splits)

text \<open>The events that neither change the view transform nor request or cancel a frame.\<close>

lemma around_handle:
  assumes "\<forall>env d. ev \<noteq> Render env d" and "ev \<noteq> Frame" and "\<forall>i e. ev \<noteq> NodeMouseDown i e"
    and "\<forall>e. ev \<noteq> SvgMouseMove e" and "\<forall>e dy. ev \<noteq> SvgWheel e dy"
  shows "around (handle ev s) = around s"
proof (cases ev)
  case (NodeClick i)
  then show ?thesis by (simp add: node_click_def around_onNodeSelect split: option.splits prod.splits)
next
  case (NodeMouseOver i)
  then show ?thesis by (simp add: node_mouseover_def same_core_around [OF same_core_set_el(1)])
next
  case (NodeMouseOut i)
  then show ?thesis by (simp add: node_mouseout_def same_core_around [OF same_core_set_el(1)])
next
  case (SvgMouseDown tag e)
  then show ?thesis by (simp add: svg_mousedown_def around_def)
next
  case SvgMouseUp
  then show ?thesis by (simp add: svg_mouseup_def around_def)
next
  case SvgMouseLeave
  then show ?thesis by (simp add: svg_mouseleave_def around_def)
next
  case (SvgClick e)
  then show ?thesis by (simp add: around_svg_click)
next
  case (OpenNode n)
  then show ?thesis by (simp add: around_onNodeSelect)
next
  case CloseButton
  then show ?thesis
    by (simp add: close_button_click_def around_close_link_panel around_onNodeSelect
        split: panel.splits)
next
  case (RemoveFromWatchlist a)
  then show ?thesis
    by (simp add: removeFromWatchlist_def around_onNodeSelect split: option.splits)
next
  case ResetPersona
  then show ?thesis by (simp add: resetPersona_def around_def)
qed (use assms in simp_all)

lemma around_mousemove:
  "scale (state_of (svg_mousemove e s)) = scale s \<and>
   simulationId (state_of (svg_mousemove e s)) = simulationId s \<and>
   frame_queue (state_of (svg_mousemove e s)) = frame_queue s"
proof -
  have "same_core t (state_of (updatePositionsInstant t))" for t
    by (rule same_core_updatePositionsInstant)
  from same_core_around [OF this] show ?thesis
    by (auto simp: svg_mousemove_def around_def split: option.splits prod.splits)
qed

lemma steady_run_frame: "steady (run_frame s) = steady s"
proof -
  have "steady (fold (\<lambda>h t. state_of (tick t)) q t) = steady t" for q :: "nat list" and t
    by (induction q arbitrary: t) (simp_all add: steady_tick)
  then show ?thesis by (simp add: run_frame_def steady_def)
qed

lemma scale_in_range_handle: "scale_in_range s \<Longrightarrow> scale_in_range (handle ev s)"
proof (cases ev)
  case (Render env d)
  then show "scale_in_range s \<Longrightarrow> ?thesis"
    using handle_Render [of env d s] by (auto simp: scale_in_range_def render_scene_fields)
next
  case Frame
  assume "scale_in_range s"
  moreover have "scale (run_frame s) = scale s"
    using steady_run_frame [of s] by (simp add: steady_def)
  ultimately show ?thesis by (simp add: Frame scale_in_range_def)
next
  case (NodeMouseDown i e)
  then show "scale_in_range s \<Longrightarrow> ?thesis"
    by (auto simp: scale_in_range_def node_mousedown_def Let_def cancel_simulation_def
        split: option.splits)
next
  case (SvgMouseMove e)
  then show "scale_in_range s \<Longrightarrow> ?thesis"
    by (simp add: scale_in_range_def around_mousemove)
next
  case (SvgWheel e dy)
  then show ?thesis by (simp add: scale_in_range_def svg_wheel_def Let_def)
qed (use around_handle [of ev s] in \<open>auto simp: scale_in_range_def around_def\<close>)

lemma scale_in_range_events: "scale_in_range s \<Longrightarrow> scale_in_range (run_events evs s)"
  unfolding run_events_def
  by (induction evs arbitrary: s) (simp_all add: scale_in_range_handle)


lemma and_then_state_of_inv2:
  assumes "P (state_of r)" and "\<And>t. P t \<Longrightarrow> R t" and "\<And>t. P t \<Longrightarrow> R (state_of (g t))"
  shows "R (state_of (and_then r g))"
  using assms by (cases r) simp_all

lemma one_request_tick:
  assumes "frame_queue s = []"
  shows "one_request (state_of (tick s))"
proof -
  let ?P = "\<lambda>t. frame_queue t = []"
  have idle: "one_request t" if "?P t" for t
    using that by (simp add: one_request_def)
  have 1: "?P (state_of (link_forces (reset_forces s)))"
    using assms by (simp add: link_forces_def reset_forces_def split: outcome.splits)
  have 2: "?P (state_of (sync_positions (move_nodes t)))" if "?P t" for t
  proof -
    have "same_core (move_nodes t) (state_of (sync_positions (move_nodes t)))"
      unfolding sync_positions_def
      by (intro same_core_and_then same_core_forEach_i same_core_sync_steps)
    from same_core_around [OF this] that show ?thesis
      by (simp add: around_def move_nodes_def Let_def)
  qed
  have 3: "one_request (state_of (Done (schedule_next t)))" if "?P t" for t
    using that by (simp add: one_request_def schedule_next_def Let_def requestAnimationFrame_def)
  show ?thesis
    unfolding tick_def
    by (intro and_then_state_of_inv2 [where P = ?P and R = one_request] 1 2 3 idle)
qed

lemma one_request_cong:
  "frame_queue t = frame_queue s \<Longrightarrow> simulationId t = simulationId s \<Longrightarrow>
   one_request t = one_request s"
  by (simp add: one_request_def cong: list.case_cong)

lemma one_request_cancel:
  "one_request s \<Longrightarrow> frame_queue (cancel_simulation s) = [] \<and> simulationId (cancel_simulation s) = None"
  by (auto simp: one_request_def cancel_simulation_def split: option.splits list.splits)

lemma one_request_handle: "one_request s \<Longrightarrow> one_request (handle ev s)"
proof (cases ev)
  case (Render env d)
  assume s: "one_request s"
  then have "one_request (s\<lparr>neighbourMap := m\<rparr>)" for m
    by (auto simp: one_request_def split: list.splits)
  from one_request_cancel [OF this]
  have "one_request (render_scene env d (s\<lparr>neighbourMap := m\<rparr>))" for m
    by (simp add: render_scene_def Let_def requestAnimationFrame_def one_request_def)
  with s handle_Render [of env d s] show ?thesis
    unfolding Render by auto
next
  case Frame
  assume s: "one_request s"
  show ?thesis
  proof (cases "frame_queue s")
    case Nil
    then show ?thesis by (simp add: Frame run_frame_def one_request_def)
  next
    case (Cons h q)
    with s have "q = []" by (simp add: one_request_def split: list.splits)
    with Cons have "run_frame s = state_of (tick (s\<lparr>frame_queue := []\<rparr>))"
      by (simp add: run_frame_def)
    then show ?thesis by (simp add: Frame one_request_tick)
  qed
next
  case (NodeMouseDown i e)
  assume s: "one_request s"
  then have "one_request (s\<lparr>draggingNode := a, dragOffset := b\<rparr>)" for a b
    by (auto simp: one_request_def split: list.splits)
  from one_request_cancel [OF this] s show ?thesis
    by (simp add: NodeMouseDown node_mousedown_def Let_def one_request_def split: option.splits prod.splits)
next
  case (SvgMouseMove e)
  have "one_request (state_of (svg_mousemove e s)) = one_request s"
    by (rule one_request_cong) (simp_all add: around_mousemove)
  then show "one_request s \<Longrightarrow> ?thesis" by (simp add: SvgMouseMove)
next
  case (SvgWheel e dy)
  have "one_request (svg_wheel e dy s) = one_request s"
    by (rule one_request_cong) (simp_all add: svg_wheel_def Let_def)
  then show "one_request s \<Longrightarrow> ?thesis" by (simp add: SvgWheel)
qed (use around_handle [of ev s] one_request_cong [of "handle ev s" s] in
     \<open>auto simp: around_def\<close>)



lemma scale_in_range_reachable: "scale_in_range (run_events evs initial_state)"
  by (rule scale_in_range_events) (simp add: scale_in_range_def initial_state_def)

text \<open>
  A third fact: whatever the events, also when a tick raises an exception or a drag
  stops the simulation, the ticks of a render pass never exceed \<open>100\<close>.
\<close>

lemma ticks_bounded_cong:
  "frame_queue t = frame_queue s \<Longrightarrow> tickCount t = tickCount s \<Longrightarrow>
   ticks_bounded t = ticks_bounded s"
  by (simp add: ticks_bounded_def)

lemma ticks_bounded_tick:
  assumes "frame_queue s = []" and "tickCount s < maxTicks"
  shows "ticks_bounded (state_of (tick s))"
proof -
  let ?P = "\<lambda>t. frame_queue t = [] \<and> tickCount t = tickCount s"
  have idle: "ticks_bounded t" if "?P t" for t
    using that assms(2) by (simp add: ticks_bounded_def)
  have 1: "?P (state_of (link_forces (reset_forces s)))"
    using assms by (simp add: link_forces_def reset_forces_def split: outcome.splits)
  have 2: "?P (state_of (sync_positions (move_nodes t)))" if "?P t" for t
  proof -
    have "same_core (move_nodes t) (state_of (sync_positions (move_nodes t)))"
      unfolding sync_positions_def
      by (intro same_core_and_then same_core_forEach_i same_core_sync_steps)
    from same_core_around [OF this] that show ?thesis
      by (simp add: around_def move_nodes_def Let_def)
  qed
  have 3: "ticks_bounded (state_of (Done (schedule_next t)))" if "?P t" for t
    using that assms(2)
    by (simp add: ticks_bounded_def schedule_next_def Let_def requestAnimationFrame_def)
  show ?thesis
    unfolding tick_def
    by (intro and_then_state_of_inv2 [where P = ?P and R = ticks_bounded] 1 2 3 idle)
qed

lemma ticks_bounded_handle:
  assumes "one_request s" and "ticks_bounded s"
  shows "ticks_bounded (handle ev s)"
proof (cases ev)
  case (Render env d)
  have "ticks_bounded (render_scene env d (s\<lparr>neighbourMap := m\<rparr>))" for m
    by (simp add: ticks_bounded_def render_scene_fields maxTicks_def)
  with assms(2) handle_Render [of env d s] show ?thesis
    unfolding Render by auto
next
  case Frame
  show ?thesis
  proof (cases "frame_queue s")
    case Nil
    with assms(2) show ?thesis by (simp add: Frame run_frame_def ticks_bounded_def)
  next
    case (Cons h q)
    with assms(1) have "q = []" by (simp add: one_request_def split: list.splits)
    with Cons have run: "run_frame s = state_of (tick (s\<lparr>frame_queue := []\<rparr>))"
      by (simp add: run_frame_def)
    from Cons assms(2) have "tickCount s < maxTicks" by (simp add: ticks_bounded_def)
    then show ?thesis
      unfolding Frame handle.simps run by (intro ticks_bounded_tick) simp_all
  qed
next
  case (NodeMouseDown i e)
  have "tickCount (node_mousedown i e s) = tickCount s"
    by (simp add: node_mousedown_def Let_def cancel_simulation_def split: option.splits prod.splits)
  moreover have "frame_queue (node_mousedown i e s) = [] \<or>
      frame_queue (node_mousedown i e s) = frame_queue s"
    using one_request_cancel [of "s\<lparr>draggingNode := a, dragOffset := b\<rparr>" for a b] assms(1)
    by (auto simp: node_mousedown_def Let_def one_request_def split: option.splits prod.splits list.splits)
  ultimately show ?thesis
    using assms(2) by (auto simp: NodeMouseDown ticks_bounded_def)
next
  case (SvgMouseMove e)
  have "ticks_bounded (state_of (svg_mousemove e s)) = ticks_bounded s"
  proof (rule ticks_bounded_cong)
    show "frame_queue (state_of (svg_mousemove e s)) = frame_queue s"
      by (simp add: around_mousemove)
    have "same_core t (state_of (updatePositionsInstant t))" for t
      by (rule same_core_updatePositionsInstant)
    from same_core_around [OF this]
    show "tickCount (state_of (svg_mousemove e s)) = tickCount s"
      by (auto simp: svg_mousemove_def around_def split: option.splits prod.splits)
  qed
  with assms(2) show ?thesis by (simp add: SvgMouseMove)
next
  case (SvgWheel e dy)
  have "ticks_bounded (svg_wheel e dy s) = ticks_bounded s"
    by (rule ticks_bounded_cong) (simp_all add: svg_wheel_def Let_def)
  with assms(2) show ?thesis by (simp add: SvgWheel)
qed (use assms(2) around_handle [of ev s] ticks_bounded_cong [of "handle ev s" s] in
     \<open>auto simp: around_def\<close>)

lemma ticks_bounded_events:
  "one_request s \<Longrightarrow> ticks_bounded s \<Longrightarrow> ticks_bounded (run_events evs s)"
  unfolding run_events_def
  by (induction evs arbitrary: s) (simp_all add: ticks_bounded_handle one_request_handle)

lemma ticks_never_exceed_maxTicks: "tickCount (run_events evs initial_state) \<le> 100"
proof -
  have "one_request initial_state" "ticks_bounded initial_state"
    by (simp_all add: one_request_def ticks_bounded_def initial_state_def)
  then have "ticks_bounded (run_events evs initial_state)" by (rule ticks_bounded_events)
  then show ?thesis by (simp add: ticks_bounded_def maxTicks_def)
qed

subsection \<open>The simulation stops\<close>






end
